(* ===== verification/Prelude.thy ===== *)
theory Prelude
  imports Main "HOL-Library.Word" "HOL-Library.Finite_Map" "HOL-Library.Sublist"
    "HOL-Library.Char_ord" "HOL-Library.List_Lexorder"
begin

text \<open>
  The vocabulary every component shares: Go's basic types, its errors with
  \<open>errors.Is\<close>, and generic lemmas on lists and sums.

  A Go string is a list of bytes (HOL's \<open>string\<close>). A slice is a list; a nil slice
  and an empty one are the same list, and where the code tells them apart the
  field is an \<open>option\<close>. A Go map with string keys is a finite map. A 64-bit
  integer is a \<open>64 word\<close>, read with \<open>sint\<close> where Go's type is signed. A
  \<open>float64\<close> is its IEEE-754 bit pattern: the program copies coordinates and
  never computes with them.
\<close>

named_theorems go_defs \<open>definitions to unfold when a component is evaluated\<close>

type_synonym int64 = "64 word"
type_synonym uint64 = "64 word"
type_synonym float64 = "64 word"
type_synonym str_map = "(string, string) fmap"

section \<open>Errors\<close>

text \<open>
  The error values the code tells apart are constructors of their own; any other
  error carries its text. \<open>Wrapped\<close> is \<open>fmt.Errorf("...: %w", err)\<close>.
\<close>

datatype go_error =
    ContextCanceled
  | ContextDeadlineExceeded
  | OsDeadlineExceeded
  | IoEOF
  | ErrKeyNotFound
  | ErrStreamNameAlreadyInUse
  | NatsAPIError int
  | StatusError int string
  | ErrNotFound string
  | ErrInvalidType string
  | ErrorString string
  | Wrapped string go_error

type_synonym 'a result = "go_error + 'a"

text \<open>\<open>errors.Is\<close>: the error itself or one it wraps equals the target.\<close>

fun err_is :: "go_error \<Rightarrow> go_error \<Rightarrow> bool" where
  "err_is (Wrapped s e) target = (Wrapped s e = target \<or> err_is e target)"
| "err_is e target = (e = target)"

lemma err_is_refl [simp]: "err_is e e"
  by (cases e) auto

lemma err_is_Wrapped [intro]: "err_is e target \<Longrightarrow> err_is (Wrapped s e) target"
  by simp

section \<open>Maps\<close>

text \<open>Reading a Go map: a missing key reads as the empty string.\<close>

definition map_get :: "str_map \<Rightarrow> string \<Rightarrow> string" where
  "map_get md k = (case fmlookup md k of None \<Rightarrow> '''' | Some v \<Rightarrow> v)"

lemma map_get_empty [simp]: "map_get fmempty k = ''''"
  by (simp add: map_get_def)

section \<open>Generic lemmas\<close>

lemma subseq_snoc [intro]: "subseq xs ys \<Longrightarrow> subseq (xs @ [x]) (ys @ [x])"
  by (simp add: list_emb_append_mono)

text \<open>An inclusion into a list without repetitions that is no longer is an equality.\<close>

lemma distinct_subset_length_eq:
  assumes "distinct xs" and "length xs = length ys" and "set xs \<subseteq> set ys"
  shows "set xs = set ys"
proof (rule card_subset_eq)
  have "card (set ys) \<le> length ys" by (rule card_length)
  also have "\<dots> = card (set xs)" using assms(1,2) by (simp add: distinct_card)
  finally show "card (set xs) = card (set ys)"
    using card_mono [OF _ assms(3)] by (simp add: le_antisym)
qed (use assms in auto)

section \<open>The last element with a property\<close>

text \<open>What an observer who keeps the newest matching element sees after a list of elements.\<close>

definition last_such :: "('a \<Rightarrow> bool) \<Rightarrow> ('a \<Rightarrow> 'b) \<Rightarrow> 'a list \<Rightarrow> 'b option" where
  "last_such P f xs = (let ys = filter P xs in if ys = [] then None else Some (f (last ys)))"

text \<open>The newer observation wins over the older one.\<close>

definition newer :: "'b option \<Rightarrow> 'b option \<Rightarrow> 'b option" where
  "newer old new = (case new of None \<Rightarrow> old | Some y \<Rightarrow> Some y)"

lemma newer_simps [simp]: "newer old None = old" "newer old (Some y) = Some y" "newer None new = new"
  by (simp_all add: newer_def split: option.split)

lemma newer_assoc: "newer (newer a b) c = newer a (newer b c)"
  by (simp add: newer_def split: option.split)

lemma last_such_Nil [simp]: "last_such P f [] = None"
  by (simp add: last_such_def)

lemma last_such_append [simp]: "last_such P f (xs @ ys) = newer (last_such P f xs) (last_such P f ys)"
  by (simp add: last_such_def Let_def del: filter_False)

lemma last_such_Cons [simp]:
  "last_such P f (x # xs) = newer (if P x then Some (f x) else None) (last_such P f xs)"
  by (simp add: last_such_def Let_def)

lemma last_such_None: "(\<And>x. x \<in> set xs \<Longrightarrow> \<not> P x) \<Longrightarrow> last_such P f xs = None"
  by (simp add: last_such_def Let_def filter_empty_conv)

section \<open>Codecs\<close>

text \<open>
  The interface of an encoder and a decoder that belong together: on the values it is
  meant for (\<open>ok\<close>) the encoder succeeds and the decoder gives the value back.
\<close>

locale codec =
  fixes enc :: "'a \<Rightarrow> 'e + 'b"
    and dec :: "'b \<Rightarrow> 'f + 'a"
    and ok :: "'a \<Rightarrow> bool"
  assumes round_trip: "ok x \<Longrightarrow> \<exists>j. enc x = Inr j \<and> dec j = Inr x"
begin

lemma dec_enc: "ok x \<Longrightarrow> enc x = Inr j \<Longrightarrow> dec j = Inr x"
  using round_trip by fastforce

lemma enc_inject: "ok x \<Longrightarrow> ok y \<Longrightarrow> enc x = enc y \<Longrightarrow> x = y"
  using round_trip by (metis sum.inject(2))

lemma enc_total: "ok x \<Longrightarrow> \<exists>j. enc x = Inr j"
  using round_trip by blast

end

end
