(* ===== verification/GoTime.thy ===== *)
theory GoTime
  imports Prelude
begin

text \<open>
  The part of Go's package \<open>time\<close> the program uses. A \<open>time.Time\<close> is the instant it
  denotes, in nanoseconds since the Unix epoch; its zone is left out, because the
  program compares and prints instants and the container runs in UTC. The zero
  \<open>time.Time\<close> is the first second of the year 1.
\<close>

datatype gotime = GoTime (unix_ns: int)

instantiation gotime :: linorder
begin

definition less_eq_gotime :: "gotime \<Rightarrow> gotime \<Rightarrow> bool" where
  "less_eq_gotime t u = (unix_ns t \<le> unix_ns u)"

definition less_gotime :: "gotime \<Rightarrow> gotime \<Rightarrow> bool" where
  "less_gotime t u = (unix_ns t < unix_ns u)"

instance
  by intro_classes (auto simp: less_eq_gotime_def less_gotime_def gotime.expand)

end

text \<open>\<open>time.Second\<close> and a \<open>time.Duration\<close>, an \<open>int64\<close> count of nanoseconds.\<close>

type_synonym duration = int

definition second :: duration where
  "second = 1000000000"

definition time_zero :: gotime where
  "time_zero = GoTime (- 62135596800 * second)"

definition time_is_zero :: "gotime \<Rightarrow> bool" where
  "time_is_zero t = (t = time_zero)"

definition time_UnixMilli :: "int64 \<Rightarrow> gotime" where
  "time_UnixMilli ms = GoTime (sint ms * 1000000)"

text \<open>\<open>Time.UnixNano\<close> is an \<open>int64\<close>: outside the years 1678 to 2262 it wraps around.\<close>

definition time_UnixNano :: "gotime \<Rightarrow> int64" where
  "time_UnixNano t = word_of_int (unix_ns t)"

definition min_duration :: duration where
  "min_duration = - (2 ^ 63)"

definition max_duration :: duration where
  "max_duration = 2 ^ 63 - 1"

text \<open>\<open>Time.Sub\<close> saturates at the least and greatest \<open>Duration\<close>.\<close>

definition time_Sub :: "gotime \<Rightarrow> gotime \<Rightarrow> duration" where
  "time_Sub t u = max min_duration (min max_duration (unix_ns t - unix_ns u))"

text \<open>\<open>Time.MarshalJSON\<close> refuses a year outside 0 to 9999 (in UTC).\<close>

definition time_json_ok :: "gotime \<Rightarrow> bool" where
  "time_json_ok t = (- 62167219200 * second \<le> unix_ns t \<and> unix_ns t < 253402300800 * second)"

lemmas time_defs [go_defs] = second_def time_zero_def time_is_zero_def time_UnixMilli_def
  time_Sub_def min_duration_def max_duration_def time_json_ok_def

lemma unix_ns_UnixMilli [simp]: "unix_ns (time_UnixMilli ms) = sint ms * 1000000"
  by (simp add: time_UnixMilli_def)

lemma time_UnixMilli_inject [simp]: "time_UnixMilli a = time_UnixMilli b \<longleftrightarrow> a = b"
  by (auto simp: time_UnixMilli_def signed_word_eqI)

text \<open>A positive millisecond count is never the zero time.\<close>

lemma time_UnixMilli_nonzero: "0 \<le> sint ms \<Longrightarrow> \<not> time_is_zero (time_UnixMilli ms)"
  by (simp add: time_defs)

lemma time_Sub_lt_iff:
  assumes "min_duration < d" and "d \<le> max_duration"
  shows "time_Sub t u < d \<longleftrightarrow> unix_ns t - unix_ns u < d"
  using assms by (auto simp: time_Sub_def min_duration_def max_duration_def)

lemma time_json_ok_UnixMilli:
  "0 \<le> sint ms \<Longrightarrow> time_json_ok (time_UnixMilli ms) \<longleftrightarrow> sint ms < 253402300800000"
  by (auto simp: time_json_ok_def second_def)

end
