(* ===== verification/Json.thy ===== *)
theory Json
  imports GoTime
begin

text \<open>
  The part of Go's \<open>encoding/json\<close> the repository uses, on trees: a payload is the tree its
  text denotes, so the text forms of numbers, strings and times are not modelled. A
  leaf keeps the kind it was written from: an integer, a \<open>float64\<close>, a string or a
  \<open>time.Time\<close> (on the wire an RFC 3339 string with nanoseconds). What the encoder does
  to values is: invalid UTF-8 in strings is replaced, non-finite floats and times
  outside the years 0 to 9999 are errors.
\<close>

datatype json =
    JNull
  | JBool bool
  | JInt int
  | JFloat float64
  | JString string
  | JTime gotime
  | JArray "json list"
  | JObject "(string \<times> json) list"

section \<open>Results\<close>

definition rbind :: "'a result \<Rightarrow> ('a \<Rightarrow> 'b result) \<Rightarrow> 'b result" where
  "rbind r f = (case r of Inl e \<Rightarrow> Inl e | Inr x \<Rightarrow> f x)"

lemma rbind_simps [simp]: "rbind (Inl e) f = Inl e" "rbind (Inr x) f = f x"
  by (simp_all add: rbind_def)

lemma rbind_Inr_iff: "rbind r f = Inr y \<longleftrightarrow> (\<exists>x. r = Inr x \<and> f x = Inr y)"
  by (cases r) auto

fun rmap :: "('a \<Rightarrow> 'b result) \<Rightarrow> 'a list \<Rightarrow> 'b list result" where
  "rmap f [] = Inr []"
| "rmap f (x # xs) = rbind (f x) (\<lambda>y. rbind (rmap f xs) (\<lambda>ys. Inr (y # ys)))"

section \<open>Strings: UTF-8\<close>

abbreviation byte :: "char \<Rightarrow> nat" where
  "byte c \<equiv> of_char c"

definition in_range :: "nat \<Rightarrow> nat \<Rightarrow> string \<Rightarrow> nat \<Rightarrow> bool" where
  "in_range lo hi s i = (i < length s \<and> lo \<le> byte (s ! i) \<and> byte (s ! i) \<le> hi)"

text \<open>
  The length of the rune at the start of a nonempty string, 0 when its first byte
  starts no valid encoding (\<open>utf8.DecodeRune\<close> then reports one bad byte).
\<close>

definition rune_len :: "string \<Rightarrow> nat" where
  "rune_len s =
     (let b = byte (s ! 0); cont = in_range 128 191 s in
      if b < 128 then 1
      else if 194 \<le> b \<and> b \<le> 223 \<and> cont 1 then 2
      else if b = 224 \<and> in_range 160 191 s 1 \<and> cont 2 then 3
      else if b = 237 \<and> in_range 128 159 s 1 \<and> cont 2 then 3
      else if 225 \<le> b \<and> b \<le> 239 \<and> b \<noteq> 237 \<and> cont 1 \<and> cont 2 then 3
      else if b = 240 \<and> in_range 144 191 s 1 \<and> cont 2 \<and> cont 3 then 4
      else if 241 \<le> b \<and> b \<le> 243 \<and> cont 1 \<and> cont 2 \<and> cont 3 then 4
      else if b = 244 \<and> in_range 128 143 s 1 \<and> cont 2 \<and> cont 3 then 4
      else 0)"

text \<open>The encoding of U+FFFD, which replaces a bad byte.\<close>

definition replacement :: string where
  "replacement = [char_of (239 :: nat), char_of (191 :: nat), char_of (189 :: nat)]"

function coerce_utf8 :: "string \<Rightarrow> string" where
  "coerce_utf8 [] = []"
| "coerce_utf8 (c # cs) =
     (let n = rune_len (c # cs) in
      if n = 0 then replacement @ coerce_utf8 cs
      else c # take (n - 1) cs @ coerce_utf8 (drop (n - 1) cs))"
  by pat_completeness auto
termination
  by (relation "measure length") auto

function valid_utf8 :: "string \<Rightarrow> bool" where
  "valid_utf8 [] = True"
| "valid_utf8 (c # cs) =
     (let n = rune_len (c # cs) in n \<noteq> 0 \<and> valid_utf8 (drop (n - 1) cs))"
  by pat_completeness auto
termination
  by (relation "measure length") auto

lemma coerce_valid [simp]: "valid_utf8 s \<Longrightarrow> coerce_utf8 s = s"
  by (induction s rule: valid_utf8.induct) (auto simp: Let_def)

lemma valid_ascii: "list_all (\<lambda>c. byte c < 128) s \<Longrightarrow> valid_utf8 s"
  by (induction s) (auto simp: rune_len_def)

declare valid_utf8.simps(2) [simp del]

section \<open>Floats\<close>

definition float_finite :: "float64 \<Rightarrow> bool" where
  "float_finite f = (and f 0x7ff0000000000000 \<noteq> 0x7ff0000000000000)"

section \<open>Encoding values\<close>

definition enc_str :: "string \<Rightarrow> json" where
  "enc_str s = JString (coerce_utf8 s)"

definition enc_float :: "float64 \<Rightarrow> json result" where
  "enc_float f = (if float_finite f then Inr (JFloat f) else Inl (ErrorString ''json: unsupported value''))"

definition enc_time :: "gotime \<Rightarrow> json result" where
  "enc_time t = (if time_json_ok t then Inr (JTime t)
     else Inl (ErrorString ''json: error calling MarshalJSON for type time.Time''))"

definition enc_strs :: "string list \<Rightarrow> json" where
  "enc_strs ss = JArray (map enc_str ss)"

text \<open>A map is written as an object with its keys in ascending order.\<close>

definition enc_map :: "str_map \<Rightarrow> json" where
  "enc_map m = JObject (map (\<lambda>k. (coerce_utf8 k, enc_str (the (fmlookup m k))))
     (sorted_list_of_fset (fmdom m)))"

text \<open>A field tagged \<open>omitempty\<close>.\<close>

definition omit_if :: "bool \<Rightarrow> string \<Rightarrow> json \<Rightarrow> (string \<times> json) list" where
  "omit_if omit k j = (if omit then [] else [(k, j)])"

section \<open>Decoding values\<close>

text \<open>A JSON null leaves the zero value; a leaf of another kind is a type error.\<close>

definition type_error :: go_error where
  "type_error = ErrorString ''json: cannot unmarshal value''"

fun dec_str :: "json \<Rightarrow> string result" where
  "dec_str (JString s) = Inr s"
| "dec_str JNull = Inr ''''"
| "dec_str _ = Inl type_error"

fun dec_int_json :: "json \<Rightarrow> int result" where
  "dec_int_json (JInt n) = Inr n"
| "dec_int_json JNull = Inr 0"
| "dec_int_json _ = Inl type_error"

fun dec_bool :: "json \<Rightarrow> bool result" where
  "dec_bool (JBool b) = Inr b"
| "dec_bool JNull = Inr False"
| "dec_bool _ = Inl type_error"

fun dec_float :: "json \<Rightarrow> float64 result" where
  "dec_float (JFloat f) = Inr f"
| "dec_float JNull = Inr 0"
| "dec_float _ = Inl type_error"

fun dec_time :: "json \<Rightarrow> gotime result" where
  "dec_time (JTime t) = Inr t"
| "dec_time JNull = Inr time_zero"
| "dec_time _ = Inl type_error"

fun dec_strs :: "json \<Rightarrow> string list result" where
  "dec_strs (JArray js) = rmap dec_str js"
| "dec_strs JNull = Inr []"
| "dec_strs _ = Inl type_error"

fun dec_pairs :: "(string \<times> json) list \<Rightarrow> str_map \<Rightarrow> str_map result" where
  "dec_pairs [] m = Inr m"
| "dec_pairs ((k, j) # kvs) m = rbind (dec_str j) (\<lambda>v. dec_pairs kvs (fmupd k v m))"

fun dec_map :: "json \<Rightarrow> str_map result" where
  "dec_map (JObject kvs) = dec_pairs kvs fmempty"
| "dec_map JNull = Inr fmempty"
| "dec_map _ = Inl type_error"

text \<open>A struct: each field is decoded from the last entry with its name, or stays zero.\<close>

definition struct_field :: "(json \<Rightarrow> 'a result) \<Rightarrow> 'a \<Rightarrow> string \<Rightarrow> (string \<times> json) list \<Rightarrow> 'a result" where
  "struct_field dec zero k kvs = (case map_of (rev kvs) k of None \<Rightarrow> Inr zero | Some j \<Rightarrow> dec j)"

fun dec_object :: "((string \<times> json) list \<Rightarrow> 'a result) \<Rightarrow> 'a \<Rightarrow> json \<Rightarrow> 'a result" where
  "dec_object dec zero (JObject kvs) = dec kvs"
| "dec_object dec zero JNull = Inr zero"
| "dec_object dec zero _ = Inl type_error"

fun dec_ptr :: "(json \<Rightarrow> 'a result) \<Rightarrow> json \<Rightarrow> 'a option result" where
  "dec_ptr dec JNull = Inr None"
| "dec_ptr dec j = rbind (dec j) (\<lambda>x. Inr (Some x))"

section \<open>Round trips of values\<close>

lemma dec_enc_str [simp]: "dec_str (enc_str s) = Inr (coerce_utf8 s)"
  by (simp add: enc_str_def)

lemma rmap_enc_strs: "rmap dec_str (map enc_str ss) = Inr (map coerce_utf8 ss)"
  by (induction ss) auto

lemma dec_enc_strs [simp]: "list_all valid_utf8 ss \<Longrightarrow> dec_strs (enc_strs ss) = Inr ss"
  by (induction ss) (auto simp: enc_strs_def rmap_enc_strs)

definition valid_map :: "str_map \<Rightarrow> bool" where
  "valid_map m = fmpred (\<lambda>k v. valid_utf8 k \<and> valid_utf8 v) m"

lemma valid_map_empty [simp]: "valid_map fmempty"
  by (simp add: valid_map_def)

lemma valid_map_upd [simp]:
  "valid_utf8 k \<Longrightarrow> valid_utf8 v \<Longrightarrow> valid_map m \<Longrightarrow> valid_map (fmupd k v m)"
  by (auto simp: valid_map_def)

lemma dec_pairs_keys:
  assumes "\<And>k. k \<in> set ks \<Longrightarrow> valid_utf8 k \<and> valid_utf8 (f k)"
  shows "dec_pairs (map (\<lambda>k. (coerce_utf8 k, enc_str (f k))) ks) m = Inr (fold (\<lambda>k. fmupd k (f k)) ks m)"
  using assms by (induction ks arbitrary: m) auto

lemma fmlookup_fold_fmupd:
  "fmlookup (fold (\<lambda>k. fmupd k (f k)) ks m) k = (if k \<in> set ks then Some (f k) else fmlookup m k)"
  by (induction ks arbitrary: m) auto

lemma dec_enc_map [simp]:
  assumes "valid_map m"
  shows "dec_map (enc_map m) = Inr m"
proof -
  let ?ks = "sorted_list_of_fset (fmdom m)" and ?f = "\<lambda>k. the (fmlookup m k)"
  have "valid_utf8 k \<and> valid_utf8 (?f k)" if "k \<in> set ?ks" for k
  proof -
    from that obtain v where "fmlookup m k = Some v" by (auto simp: fmdom_notI fmlookup_dom_iff)
    with assms show ?thesis by (auto simp: valid_map_def dest: fmpredD)
  qed
  then have "dec_pairs (map (\<lambda>k. (coerce_utf8 k, enc_str (?f k))) ?ks) fmempty
      = Inr (fold (\<lambda>k. fmupd k (?f k)) ?ks fmempty)"
    by (rule dec_pairs_keys)
  moreover have "fold (\<lambda>k. fmupd k (?f k)) ?ks fmempty = m"
    by (rule fmap_ext) (auto simp: fmlookup_fold_fmupd fmlookup_dom_iff)
  ultimately show ?thesis by (simp add: enc_map_def)
qed

end
