(* ===== verification/Domain.thy ===== *)
theory Domain
  imports GoTime
begin

text \<open>
  The types of package \<open>domain\<close> (\<open>internal/core/domain/domains.go\<close>), one record per
  struct with its fields in order. An optional pointer field is an \<open>option\<close>.
  \<open>EventType\<close> and \<open>PresenceType\<close> are Go integers, not closed enumerations: a value
  decoded from the wire may be any number, so a type wraps its code and the
  constants are values of it.
\<close>

section \<open>Event and presence types\<close>

datatype event_type = EventType (et_code: int)

definition EventTypeUnspecified :: event_type where "EventTypeUnspecified = EventType 0"
definition EventTypeZone :: event_type where "EventTypeZone = EventType 1"
definition EventTypePresence :: event_type where "EventTypePresence = EventType 2"
definition EventTypeCommand :: event_type where "EventTypeCommand = EventType 3"

lemmas event_type_consts [go_defs] = EventTypeUnspecified_def EventTypeZone_def
  EventTypePresence_def EventTypeCommand_def

lemma event_type_distinct [simp]:
  "EventTypeZone \<noteq> EventTypePresence" "EventTypePresence \<noteq> EventTypeZone"
  "EventTypeZone \<noteq> EventTypeCommand" "EventTypeCommand \<noteq> EventTypeZone"
  "EventTypePresence \<noteq> EventTypeCommand" "EventTypeCommand \<noteq> EventTypePresence"
  "EventTypeUnspecified \<noteq> EventTypeZone" "EventTypeZone \<noteq> EventTypeUnspecified"
  "EventTypeUnspecified \<noteq> EventTypePresence" "EventTypePresence \<noteq> EventTypeUnspecified"
  "EventTypeUnspecified \<noteq> EventTypeCommand" "EventTypeCommand \<noteq> EventTypeUnspecified"
  by (simp_all add: go_defs)

definition event_type_String :: "event_type \<Rightarrow> string" where
  "event_type_String t =
     (if t = EventTypeZone then ''ZONE''
      else if t = EventTypePresence then ''PRESENCE''
      else if t = EventTypeCommand then ''COMMAND''
      else ''UNSPECIFIED'')"

datatype presence_type = PresenceType (pt_code: int)

definition PresenceTypeUnspecified :: presence_type where "PresenceTypeUnspecified = PresenceType 0"
definition PresenceTypeActive :: presence_type where "PresenceTypeActive = PresenceType 1"
definition PresenceTypeInactive :: presence_type where "PresenceTypeInactive = PresenceType 2"

lemmas presence_type_consts [go_defs] = PresenceTypeUnspecified_def PresenceTypeActive_def
  PresenceTypeInactive_def

lemma presence_type_distinct [simp]:
  "PresenceTypeActive \<noteq> PresenceTypeInactive" "PresenceTypeInactive \<noteq> PresenceTypeActive"
  "PresenceTypeUnspecified \<noteq> PresenceTypeActive" "PresenceTypeActive \<noteq> PresenceTypeUnspecified"
  "PresenceTypeUnspecified \<noteq> PresenceTypeInactive" "PresenceTypeInactive \<noteq> PresenceTypeUnspecified"
  by (simp_all add: go_defs)

definition presence_type_String :: "presence_type \<Rightarrow> string" where
  "presence_type_String t =
     (if t = PresenceTypeActive then ''ACTIVE''
      else if t = PresenceTypeInactive then ''INACTIVE''
      else ''UNSPECIFIED'')"

text \<open>Both types are ordered by their codes, as Go's integers are.\<close>

instantiation event_type :: linorder
begin

definition less_eq_event_type :: "event_type \<Rightarrow> event_type \<Rightarrow> bool" where
  "less_eq_event_type t u = (et_code t \<le> et_code u)"

definition less_event_type :: "event_type \<Rightarrow> event_type \<Rightarrow> bool" where
  "less_event_type t u = (et_code t < et_code u)"

instance
  by intro_classes (auto simp: less_eq_event_type_def less_event_type_def event_type.expand)

end

section \<open>Structs\<close>

record actor =
  actor_ID :: string
  actor_Metadata :: str_map

record point =
  pt_X :: float64
  pt_Y :: float64
  pt_Z :: float64

record polygon =
  poly_Vertices :: "point list"

record zone =
  zone_ID :: string
  zone_Name :: string
  zone_Polygon :: polygon

record configuration =
  cfg_Zones :: "zone list"

record location =
  loc_Point :: "point option"
  loc_Zones :: "string list"

record presence =
  pres_Type :: presence_type
  pres_Since :: gotime

record command =
  cmd_ID :: string
  cmd_Name :: string
  cmd_Arguments :: str_map

record directive =
  dir_ID :: string
  dir_Name :: string
  dir_Arguments :: str_map

record state =
  st_Location :: "location option"
  st_Presence :: presence
  st_Command :: "command option"

record event =
  ev_ID :: string
  ev_Type :: event_type
  ev_Actor :: actor
  ev_State :: state
  ev_Timestamp :: gotime

text \<open>Shorthands for what the properties read off an event.\<close>

abbreviation ev_actor :: "event \<Rightarrow> string" where
  "ev_actor e \<equiv> actor_ID (ev_Actor e)"

definition ev_zones :: "event \<Rightarrow> string list" where
  "ev_zones e = (case st_Location (ev_State e) of None \<Rightarrow> [] | Some l \<Rightarrow> loc_Zones l)"

definition ev_presence :: "event \<Rightarrow> presence_type" where
  "ev_presence e = pres_Type (st_Presence (ev_State e))"

end
