(* ===== verification/Wire.thy ===== *)
theory Wire
  imports Json Domain
begin

text \<open>
  The wire format of events in \<open>internal/repositories/jetstream/codec.go\<close>: the structs with
  their JSON tags, \<open>marshal\<close> and \<open>unmarshal\<close>. A message whose text is not JSON at all has
  no tree: a payload is a tree or \<open>Malformed\<close>.
\<close>

section \<open>Wire structs\<close>

record wireActor =
  wa_ID :: string
  wa_Metadata :: str_map

record wirePoint =
  wp_X :: float64
  wp_Y :: float64
  wp_Z :: float64

record wireLocation =
  wl_Point :: "wirePoint option"
  wl_Zones :: "string list"

record wirePresence =
  wpr_Type :: int
  wpr_Since :: gotime

record wireCommand =
  wc_ID :: string
  wc_Name :: string
  wc_Arguments :: str_map

record wireState =
  ws_Location :: "wireLocation option"
  ws_Presence :: wirePresence
  ws_Command :: "wireCommand option"

record wireEvent =
  we_ID :: string
  we_Type :: int
  we_Actor :: wireActor
  we_State :: wireState
  we_Timestamp :: gotime

section \<open>Conversions\<close>

definition toWireState :: "state \<Rightarrow> wireState" where
  "toWireState s =
     \<lparr>ws_Location = (case st_Location s of
        None \<Rightarrow> None
      | Some l \<Rightarrow> Some \<lparr>wl_Point = (case loc_Point l of
            None \<Rightarrow> None
          | Some p \<Rightarrow> Some \<lparr>wp_X = pt_X p, wp_Y = pt_Y p, wp_Z = pt_Z p\<rparr>),
          wl_Zones = loc_Zones l\<rparr>),
      ws_Presence = \<lparr>wpr_Type = pt_code (pres_Type (st_Presence s)), wpr_Since = pres_Since (st_Presence s)\<rparr>,
      ws_Command = (case st_Command s of
        None \<Rightarrow> None
      | Some c \<Rightarrow> Some \<lparr>wc_ID = cmd_ID c, wc_Name = cmd_Name c, wc_Arguments = cmd_Arguments c\<rparr>)\<rparr>"

definition fromWireState :: "wireState \<Rightarrow> state" where
  "fromWireState ws =
     \<lparr>st_Location = (case ws_Location ws of
        None \<Rightarrow> None
      | Some l \<Rightarrow> Some \<lparr>loc_Point = (case wl_Point l of
            None \<Rightarrow> None
          | Some p \<Rightarrow> Some \<lparr>pt_X = wp_X p, pt_Y = wp_Y p, pt_Z = wp_Z p\<rparr>),
          loc_Zones = wl_Zones l\<rparr>),
      st_Presence = \<lparr>pres_Type = PresenceType (wpr_Type (ws_Presence ws)),
                     pres_Since = wpr_Since (ws_Presence ws)\<rparr>,
      st_Command = (case ws_Command ws of
        None \<Rightarrow> None
      | Some c \<Rightarrow> Some \<lparr>cmd_ID = wc_ID c, cmd_Name = wc_Name c, cmd_Arguments = wc_Arguments c\<rparr>)\<rparr>"

definition toWireEvent :: "event \<Rightarrow> wireEvent" where
  "toWireEvent e =
     \<lparr>we_ID = ev_ID e, we_Type = et_code (ev_Type e),
      we_Actor = \<lparr>wa_ID = actor_ID (ev_Actor e), wa_Metadata = actor_Metadata (ev_Actor e)\<rparr>,
      we_State = toWireState (ev_State e), we_Timestamp = ev_Timestamp e\<rparr>"

definition fromWireEvent :: "wireEvent \<Rightarrow> event" where
  "fromWireEvent w =
     \<lparr>ev_ID = we_ID w, ev_Type = EventType (we_Type w),
      ev_Actor = \<lparr>actor_ID = wa_ID (we_Actor w), actor_Metadata = wa_Metadata (we_Actor w)\<rparr>,
      ev_State = fromWireState (we_State w), ev_Timestamp = we_Timestamp w\<rparr>"

lemma fromWire_toWire [simp]: "fromWireEvent (toWireEvent e) = e"
proof -
  have "fromWireState (toWireState s) = s" for s
    by (cases s) (auto simp: fromWireState_def toWireState_def split: option.split)
  then show ?thesis by (simp add: fromWireEvent_def toWireEvent_def)
qed

section \<open>The JSON form of the structs\<close>

definition enc_point :: "wirePoint \<Rightarrow> json result" where
  "enc_point p = rbind (enc_float (wp_X p)) (\<lambda>x. rbind (enc_float (wp_Y p)) (\<lambda>y.
     rbind (enc_float (wp_Z p)) (\<lambda>z. Inr (JObject [(''x'', x), (''y'', y), (''z'', z)]))))"

definition dec_point :: "(string \<times> json) list \<Rightarrow> wirePoint result" where
  "dec_point kvs = rbind (struct_field dec_float 0 ''x'' kvs) (\<lambda>x.
     rbind (struct_field dec_float 0 ''y'' kvs) (\<lambda>y.
     rbind (struct_field dec_float 0 ''z'' kvs) (\<lambda>z. Inr \<lparr>wp_X = x, wp_Y = y, wp_Z = z\<rparr>)))"

definition zero_point :: wirePoint where
  "zero_point = \<lparr>wp_X = 0, wp_Y = 0, wp_Z = 0\<rparr>"

text \<open>An \<open>omitempty\<close> pointer field: absent when nil.\<close>

definition enc_opt :: "('a \<Rightarrow> json result) \<Rightarrow> string \<Rightarrow> 'a option \<Rightarrow> (string \<times> json) list result" where
  "enc_opt enc k p = (case p of None \<Rightarrow> Inr [] | Some x \<Rightarrow> rbind (enc x) (\<lambda>j. Inr [(k, j)]))"

definition enc_location :: "wireLocation \<Rightarrow> json result" where
  "enc_location l = rbind (enc_opt enc_point ''point'' (wl_Point l)) (\<lambda>p.
     Inr (JObject (p @ omit_if (wl_Zones l = []) ''zones'' (enc_strs (wl_Zones l)))))"

definition dec_location :: "(string \<times> json) list \<Rightarrow> wireLocation result" where
  "dec_location kvs = rbind (struct_field (dec_ptr (dec_object dec_point zero_point)) None ''point'' kvs) (\<lambda>p.
     rbind (struct_field dec_strs [] ''zones'' kvs) (\<lambda>zs. Inr \<lparr>wl_Point = p, wl_Zones = zs\<rparr>))"

definition zero_location :: wireLocation where
  "zero_location = \<lparr>wl_Point = None, wl_Zones = []\<rparr>"

definition enc_presence :: "wirePresence \<Rightarrow> json result" where
  "enc_presence p = rbind (enc_time (wpr_Since p)) (\<lambda>t.
     Inr (JObject [(''type'', JInt (wpr_Type p)), (''since'', t)]))"

definition dec_presence :: "(string \<times> json) list \<Rightarrow> wirePresence result" where
  "dec_presence kvs = rbind (struct_field dec_int_json 0 ''type'' kvs) (\<lambda>n.
     rbind (struct_field dec_time time_zero ''since'' kvs) (\<lambda>t. Inr \<lparr>wpr_Type = n, wpr_Since = t\<rparr>))"

definition zero_presence :: wirePresence where
  "zero_presence = \<lparr>wpr_Type = 0, wpr_Since = time_zero\<rparr>"

definition enc_command :: "wireCommand \<Rightarrow> json result" where
  "enc_command c = Inr (JObject ([(''id'', enc_str (wc_ID c)), (''name'', enc_str (wc_Name c))]
     @ omit_if (wc_Arguments c = fmempty) ''arguments'' (enc_map (wc_Arguments c))))"

definition dec_command :: "(string \<times> json) list \<Rightarrow> wireCommand result" where
  "dec_command kvs = rbind (struct_field dec_str '''' ''id'' kvs) (\<lambda>i.
     rbind (struct_field dec_str '''' ''name'' kvs) (\<lambda>n.
     rbind (struct_field dec_map fmempty ''arguments'' kvs) (\<lambda>a.
       Inr \<lparr>wc_ID = i, wc_Name = n, wc_Arguments = a\<rparr>)))"

definition zero_command :: wireCommand where
  "zero_command = \<lparr>wc_ID = '''', wc_Name = '''', wc_Arguments = fmempty\<rparr>"

definition enc_state :: "wireState \<Rightarrow> json result" where
  "enc_state s = rbind (enc_opt enc_location ''location'' (ws_Location s)) (\<lambda>l.
     rbind (enc_presence (ws_Presence s)) (\<lambda>p.
     rbind (enc_opt enc_command ''command'' (ws_Command s)) (\<lambda>c.
       Inr (JObject (l @ [(''presence'', p)] @ c)))))"

definition dec_state :: "(string \<times> json) list \<Rightarrow> wireState result" where
  "dec_state kvs =
     rbind (struct_field (dec_ptr (dec_object dec_location zero_location)) None ''location'' kvs) (\<lambda>l.
     rbind (struct_field (dec_object dec_presence zero_presence) zero_presence ''presence'' kvs) (\<lambda>p.
     rbind (struct_field (dec_ptr (dec_object dec_command zero_command)) None ''command'' kvs) (\<lambda>c.
       Inr \<lparr>ws_Location = l, ws_Presence = p, ws_Command = c\<rparr>)))"

definition zero_state :: wireState where
  "zero_state = \<lparr>ws_Location = None, ws_Presence = zero_presence, ws_Command = None\<rparr>"

definition enc_actor :: "wireActor \<Rightarrow> json result" where
  "enc_actor a = Inr (JObject ([(''id'', enc_str (wa_ID a))]
     @ omit_if (wa_Metadata a = fmempty) ''metadata'' (enc_map (wa_Metadata a))))"

definition dec_actor :: "(string \<times> json) list \<Rightarrow> wireActor result" where
  "dec_actor kvs = rbind (struct_field dec_str '''' ''id'' kvs) (\<lambda>i.
     rbind (struct_field dec_map fmempty ''metadata'' kvs) (\<lambda>m. Inr \<lparr>wa_ID = i, wa_Metadata = m\<rparr>))"

definition zero_actor :: wireActor where
  "zero_actor = \<lparr>wa_ID = '''', wa_Metadata = fmempty\<rparr>"

definition enc_event :: "wireEvent \<Rightarrow> json result" where
  "enc_event w = rbind (enc_actor (we_Actor w)) (\<lambda>a. rbind (enc_state (we_State w)) (\<lambda>s.
     rbind (enc_time (we_Timestamp w)) (\<lambda>t.
       Inr (JObject [(''id'', enc_str (we_ID w)), (''type'', JInt (we_Type w)), (''actor'', a),
         (''state'', s), (''timestamp'', t)]))))"

definition dec_event :: "(string \<times> json) list \<Rightarrow> wireEvent result" where
  "dec_event kvs = rbind (struct_field dec_str '''' ''id'' kvs) (\<lambda>i.
     rbind (struct_field dec_int_json 0 ''type'' kvs) (\<lambda>n.
     rbind (struct_field (dec_object dec_actor zero_actor) zero_actor ''actor'' kvs) (\<lambda>a.
     rbind (struct_field (dec_object dec_state zero_state) zero_state ''state'' kvs) (\<lambda>s.
     rbind (struct_field dec_time time_zero ''timestamp'' kvs) (\<lambda>t.
       Inr \<lparr>we_ID = i, we_Type = n, we_Actor = a, we_State = s, we_Timestamp = t\<rparr>)))))"

definition zero_event :: wireEvent where
  "zero_event = \<lparr>we_ID = '''', we_Type = 0, we_Actor = zero_actor, we_State = zero_state,
     we_Timestamp = time_zero\<rparr>"

section \<open>marshal and unmarshal\<close>

datatype payload = Malformed | Payload json

definition marshal :: "event \<Rightarrow> payload result" where
  "marshal e = rbind (enc_event (toWireEvent e)) (\<lambda>j. Inr (Payload j))"

definition unmarshal :: "payload \<Rightarrow> event result" where
  "unmarshal data =
     (case data of
        Malformed \<Rightarrow> Inl (Wrapped ''jetstream: unmarshal event'' (ErrorString ''json: invalid character''))
      | Payload j \<Rightarrow>
          (case dec_object dec_event zero_event j of
             Inl err \<Rightarrow> Inl (Wrapped ''jetstream: unmarshal event'' err)
           | Inr w \<Rightarrow> Inr (fromWireEvent w)))"

section \<open>Fields of an object\<close>

lemma struct_field_Nil [simp]: "struct_field dec z k [] = Inr z"
  by (simp add: struct_field_def)

lemma map_of_rev_None: "map_of (rev kvs) k = None \<longleftrightarrow> k \<notin> fst ` set kvs"
  by (simp add: map_of_eq_None_iff)

lemma struct_field_absent: "k \<notin> fst ` set kvs \<Longrightarrow> struct_field dec z k kvs = Inr z"
  using map_of_rev_None [of kvs k] by (simp add: struct_field_def)

lemma struct_field_append [simp]:
  "struct_field dec z k (xs @ ys) =
     (if k \<in> fst ` set ys then struct_field dec z k ys else struct_field dec z k xs)"
proof (cases "k \<in> fst ` set ys")
  case True
  then obtain j where "map_of (rev ys) k = Some j" using map_of_rev_None [of ys k] by auto
  with True show ?thesis by (simp add: struct_field_def map_add_def)
next
  case False
  then have "map_of (rev ys) k = None" by (simp only: map_of_rev_None not_False_eq_True)
  with False show ?thesis by (simp add: struct_field_def map_add_def)
qed

lemma struct_field_single: "struct_field dec z k [(k', j)] = (if k = k' then dec j else Inr z)"
  by (simp add: struct_field_def)

lemma struct_field_Cons [simp]:
  "struct_field dec z k ((k', j) # kvs) =
     (if k \<in> fst ` set kvs then struct_field dec z k kvs else if k = k' then dec j else Inr z)"
  using struct_field_append [of dec z k "[(k', j)]" kvs] by (simp add: struct_field_single)

lemma keys_omit_if [simp]: "fst ` set (omit_if b k j) = (if b then {} else {k})"
  by (simp add: omit_if_def)

lemma struct_field_omit_if [simp]:
  "struct_field dec z k (omit_if b k' j) = (if b \<or> k \<noteq> k' then Inr z else dec j)"
  by (simp add: omit_if_def)

text \<open>
  A codec into JSON whose encoder never writes null can be used for an optional field:
  nil is written as nothing and anything else as itself.
\<close>

locale json_codec = codec enc dec ok
  for enc :: "'a \<Rightarrow> json result" and dec :: "json \<Rightarrow> 'a result" and ok :: "'a \<Rightarrow> bool" +
  assumes not_null: "enc x = Inr j \<Longrightarrow> j \<noteq> JNull"
begin

lemma dec_ptr_enc: "ok x \<Longrightarrow> enc x = Inr j \<Longrightarrow> dec_ptr dec j = Inr (Some x)"
  using not_null [of x j] dec_enc [of x j] by (cases j) simp_all

lemma opt_field:
  assumes "pred_option ok p"
  obtains kvs where "enc_opt enc k p = Inr kvs" "fst ` set kvs = (if p = None then {} else {k})"
    "struct_field (dec_ptr dec) None k kvs = Inr p"
proof (cases p)
  case None
  with that [of "[]"] show ?thesis by (simp add: enc_opt_def)
next
  case (Some x)
  with assms obtain j where "enc x = Inr j" "dec_ptr dec j = Inr (Some x)"
    using enc_total [of x] dec_ptr_enc [of x] by auto
  with Some that [of "[(k, j)]"] show ?thesis by (simp add: enc_opt_def)
qed

end

section \<open>The structs are codecs\<close>

definition point_ok :: "wirePoint \<Rightarrow> bool" where
  "point_ok p = (float_finite (wp_X p) \<and> float_finite (wp_Y p) \<and> float_finite (wp_Z p))"

definition location_ok :: "wireLocation \<Rightarrow> bool" where
  "location_ok l = (pred_option point_ok (wl_Point l) \<and> list_all valid_utf8 (wl_Zones l))"

definition presence_ok :: "wirePresence \<Rightarrow> bool" where
  "presence_ok p = time_json_ok (wpr_Since p)"

definition command_ok :: "wireCommand \<Rightarrow> bool" where
  "command_ok c = (valid_utf8 (wc_ID c) \<and> valid_utf8 (wc_Name c) \<and> valid_map (wc_Arguments c))"

definition state_ok :: "wireState \<Rightarrow> bool" where
  "state_ok s = (pred_option location_ok (ws_Location s) \<and> presence_ok (ws_Presence s)
     \<and> pred_option command_ok (ws_Command s))"

definition actor_ok :: "wireActor \<Rightarrow> bool" where
  "actor_ok a = (valid_utf8 (wa_ID a) \<and> valid_map (wa_Metadata a))"

definition wire_ok :: "wireEvent \<Rightarrow> bool" where
  "wire_ok w = (valid_utf8 (we_ID w) \<and> actor_ok (we_Actor w) \<and> state_ok (we_State w)
     \<and> time_json_ok (we_Timestamp w))"

lemmas wire_ok_defs = point_ok_def location_ok_def presence_ok_def command_ok_def state_ok_def
  actor_ok_def wire_ok_def

interpretation point_codec: json_codec enc_point "dec_object dec_point zero_point" point_ok
  by unfold_locales
    (auto simp: enc_point_def dec_point_def point_ok_def enc_float_def rbind_Inr_iff split: if_splits)

interpretation location_codec: json_codec enc_location "dec_object dec_location zero_location" location_ok
proof unfold_locales
  fix l assume "location_ok l"
  then have p: "pred_option point_ok (wl_Point l)" and z: "list_all valid_utf8 (wl_Zones l)"
    by (simp_all add: location_ok_def)
  from point_codec.opt_field [OF p, of "''point''"] obtain kvs where
    "enc_opt enc_point ''point'' (wl_Point l) = Inr kvs"
    "fst ` set kvs = (if wl_Point l = None then {} else {''point''})"
    "struct_field (dec_ptr (dec_object dec_point zero_point)) None ''point'' kvs = Inr (wl_Point l)"
    by blast
  with z show "\<exists>j. enc_location l = Inr j \<and> dec_object dec_location zero_location j = Inr l"
    by (simp add: enc_location_def dec_location_def struct_field_absent)
qed (auto simp: enc_location_def rbind_Inr_iff)

interpretation presence_codec: json_codec enc_presence "dec_object dec_presence zero_presence" presence_ok
  by unfold_locales
    (auto simp: enc_presence_def dec_presence_def presence_ok_def enc_time_def rbind_Inr_iff split: if_splits)

interpretation command_codec: json_codec enc_command "dec_object dec_command zero_command" command_ok
  by unfold_locales (auto simp: enc_command_def dec_command_def command_ok_def)

interpretation actor_codec: json_codec enc_actor "dec_object dec_actor zero_actor" actor_ok
  by unfold_locales (auto simp: enc_actor_def dec_actor_def actor_ok_def)

interpretation state_codec: json_codec enc_state "dec_object dec_state zero_state" state_ok
proof unfold_locales
  fix s assume "state_ok s"
  then have l: "pred_option location_ok (ws_Location s)" and p: "presence_ok (ws_Presence s)"
    and c: "pred_option command_ok (ws_Command s)"
    by (simp_all add: state_ok_def)
  from location_codec.opt_field [OF l, of "''location''"] obtain kl where
    "enc_opt enc_location ''location'' (ws_Location s) = Inr kl"
    "fst ` set kl = (if ws_Location s = None then {} else {''location''})"
    "struct_field (dec_ptr (dec_object dec_location zero_location)) None ''location'' kl = Inr (ws_Location s)"
    by blast
  moreover from command_codec.opt_field [OF c, of "''command''"] obtain kc where
    "enc_opt enc_command ''command'' (ws_Command s) = Inr kc"
    "fst ` set kc = (if ws_Command s = None then {} else {''command''})"
    "struct_field (dec_ptr (dec_object dec_command zero_command)) None ''command'' kc = Inr (ws_Command s)"
    by blast
  moreover from presence_codec.round_trip [OF p] obtain jp where
    "enc_presence (ws_Presence s) = Inr jp"
    "dec_object dec_presence zero_presence jp = Inr (ws_Presence s)"
    by blast
  ultimately show "\<exists>j. enc_state s = Inr j \<and> dec_object dec_state zero_state j = Inr s"
    by (simp add: enc_state_def dec_state_def struct_field_absent)
qed (auto simp: enc_state_def rbind_Inr_iff)

interpretation event_codec: json_codec enc_event "dec_object dec_event zero_event" wire_ok
proof unfold_locales
  fix w assume "wire_ok w"
  then have a: "actor_ok (we_Actor w)" and s: "state_ok (we_State w)"
    and rest: "valid_utf8 (we_ID w)" "time_json_ok (we_Timestamp w)"
    by (simp_all add: wire_ok_def)
  from actor_codec.round_trip [OF a] state_codec.round_trip [OF s] rest
  show "\<exists>j. enc_event w = Inr j \<and> dec_object dec_event zero_event j = Inr w"
    by (auto simp: enc_event_def dec_event_def enc_time_def)
qed (auto simp: enc_event_def rbind_Inr_iff)

text \<open>Hence \<open>marshal\<close> and \<open>unmarshal\<close> are a codec on the events the wire can carry.\<close>

definition event_wire_ok :: "event \<Rightarrow> bool" where
  "event_wire_ok e = wire_ok (toWireEvent e)"

interpretation message_codec: codec marshal unmarshal event_wire_ok
proof unfold_locales
  fix e assume "event_wire_ok e"
  then obtain j where "enc_event (toWireEvent e) = Inr j"
    "dec_object dec_event zero_event j = Inr (toWireEvent e)"
    using event_codec.round_trip unfolding event_wire_ok_def by blast
  then show "\<exists>p. marshal e = Inr p \<and> unmarshal p = Inr e"
    by (simp add: marshal_def unmarshal_def)
qed

section \<open>Properties\<close>

text \<open>The point of an event, when it has one.\<close>

definition ev_point :: "event \<Rightarrow> point option" where
  "ev_point e = Option.bind (st_Location (ev_State e)) loc_Point"

definition point_finite :: "point \<Rightarrow> bool" where
  "point_finite p = (float_finite (pt_X p) \<and> float_finite (pt_Y p) \<and> float_finite (pt_Z p))"

lemma enc_float_Inr: "(\<exists>j. enc_float f = Inr j) \<longleftrightarrow> float_finite f"
  by (simp add: enc_float_def)

lemma enc_point_Inr: "(\<exists>j. enc_point p = Inr j) \<longleftrightarrow> point_ok p"
  by (auto simp: enc_point_def point_ok_def rbind_Inr_iff enc_float_def split: if_splits)

lemma enc_location_Inr: "(\<exists>j. enc_location l = Inr j) \<longleftrightarrow> pred_option point_ok (wl_Point l)"
  by (cases "wl_Point l") (auto simp: enc_location_def enc_opt_def rbind_Inr_iff simp flip: enc_point_Inr)

lemma enc_state_Inr:
  "(\<exists>j. enc_state s = Inr j) \<longleftrightarrow>
     pred_option (\<lambda>l. pred_option point_ok (wl_Point l)) (ws_Location s)
     \<and> time_json_ok (wpr_Since (ws_Presence s))"
proof -
  have c: "\<exists>j. enc_opt enc_command ''command'' p = Inr j" for p
    by (cases p) (simp_all add: enc_opt_def enc_command_def)
  have p: "(\<exists>j. enc_presence q = Inr j) \<longleftrightarrow> time_json_ok (wpr_Since q)" for q
    by (simp add: enc_presence_def rbind_Inr_iff enc_time_def)
  have l: "(\<exists>j. enc_opt enc_location ''location'' q = Inr j) \<longleftrightarrow>
      pred_option (\<lambda>l. pred_option point_ok (wl_Point l)) q" for q
    by (cases q) (auto simp: enc_opt_def rbind_Inr_iff simp flip: enc_location_Inr)
  show ?thesis
    unfolding enc_state_def rbind_Inr_iff using c p l by (metis sum.inject(2))
qed

text \<open>
  C29: an event whose strings are valid UTF-8, whose coordinates are finite and whose
  times lie in the years 0 to 9999 is written to the wire, and reading it back gives the
  same event: no field is lost or confused with its zero value.
\<close>

theorem event_roundtrip:
  assumes "event_wire_ok e"
  shows "\<exists>p. marshal e = Inr p \<and> unmarshal p = Inr e"
  using assms by (rule message_codec.round_trip)

text \<open>A zone event with a point and metadata, for the concrete instances.\<close>

definition sample_event :: event where
  "sample_event = \<lparr>ev_ID = ''evt-1'', ev_Type = EventTypeZone,
     ev_Actor = \<lparr>actor_ID = ''tag'', actor_Metadata = fmupd ''locationType'' ''position'' fmempty\<rparr>,
     ev_State = \<lparr>st_Location = Some \<lparr>loc_Point = Some \<lparr>pt_X = 0x3ff8000000000000, pt_Y = 0, pt_Z = 0\<rparr>,
                                      loc_Zones = [''pool'', ''wall'']\<rparr>,
                 st_Presence = \<lparr>pres_Type = PresenceTypeActive, pres_Since = GoTime 1000000000\<rparr>,
                 st_Command = None\<rparr>,
     ev_Timestamp = GoTime 1000000000\<rparr>"

lemma sample_event_ok [simp]: "event_wire_ok sample_event"
  by (simp add: event_wire_ok_def sample_event_def toWireEvent_def toWireState_def wire_ok_defs
      valid_ascii float_finite_def time_json_ok_def second_def)

theorem event_roundtrip_witness: "\<exists>p. marshal sample_event = Inr p \<and> unmarshal p = Inr sample_event"
  by (rule event_roundtrip) simp

lemma marshal_Inr_iff:
  "(\<exists>p. marshal e = Inr p) \<longleftrightarrow>
     time_json_ok (ev_Timestamp e) \<and> time_json_ok (pres_Since (st_Presence (ev_State e)))
     \<and> pred_option point_finite (ev_point e)"
proof -
  have loc: "pred_option (\<lambda>l. pred_option point_ok (wl_Point l)) (ws_Location (toWireState (ev_State e)))
      \<longleftrightarrow> pred_option point_finite (ev_point e)"
    by (auto simp: toWireState_def ev_point_def point_ok_def point_finite_def bind_eq_Some_conv
        option.pred_set split: option.split)
  have "(\<exists>p. marshal e = Inr p) \<longleftrightarrow>
      (\<exists>j. enc_state (toWireState (ev_State e)) = Inr j) \<and> time_json_ok (ev_Timestamp e)"
    by (auto simp: marshal_def enc_event_def enc_actor_def toWireEvent_def rbind_Inr_iff enc_time_def
        split: if_splits)
  with loc show ?thesis
    by (auto simp: enc_state_Inr) (auto simp: toWireState_def)
qed

text \<open>
  C37: \<open>marshal\<close> succeeds exactly when the event's two times lie in the years 0 to 9999
  and its point, if it has one, is finite; strings, zones and metadata never make it
  fail.
\<close>

theorem marshal_succeeds_iff:
  "(\<exists>p. marshal e = Inr p) \<longleftrightarrow>
     time_json_ok (ev_Timestamp e) \<and> time_json_ok (pres_Since (st_Presence (ev_State e)))
     \<and> pred_option point_finite (ev_point e)"
  by (rule marshal_Inr_iff)

end
