(* ===== verification/GoNum.thy ===== *)
theory GoNum
  imports Prelude
begin

text \<open>
  The part of Go's packages \<open>strconv\<close> and \<open>strings\<close> the program uses: decimal
  formatting (\<open>FormatUint\<close>, the verb \<open>%d\<close>), the parser \<open>ParseUint\<close> in base 10 with
  its overflow checks on 64-bit words, \<open>TrimLeft\<close> and \<open>Repeat\<close>.
\<close>

section \<open>Signed words\<close>

lemma sint_inject: "sint (v :: int64) = sint w \<longleftrightarrow> v = w"
  by (auto simp: signed_word_eqI)

lemma sint_word_of_int_small: "- (2 ^ 63) \<le> k \<Longrightarrow> k < 2 ^ 63 \<Longrightarrow> sint (word_of_int k :: int64) = k"
  by (simp add: int_word_sint [of k] mod_pos_pos_trivial)

section \<open>Formatting\<close>

definition digit_char :: "nat \<Rightarrow> char" where
  "digit_char d = char_of (48 + d)"

fun dec_nat :: "nat \<Rightarrow> string" where
  "dec_nat n = (if n < 10 then [digit_char n] else dec_nat (n div 10) @ [digit_char (n mod 10)])"

declare dec_nat.simps [simp del]

definition dec_int :: "int \<Rightarrow> string" where
  "dec_int n = (if n < 0 then CHR ''-'' # dec_nat (nat (- n)) else dec_nat (nat n))"

definition FormatUint :: "uint64 \<Rightarrow> string" where
  "FormatUint w = dec_nat (unat w)"

section \<open>Parsing\<close>

datatype num_error = ErrSyntax | ErrRange

definition char_digit :: "char \<Rightarrow> nat option" where
  "char_digit c = (let k = of_char c :: nat in if 48 \<le> k \<and> k \<le> 57 then Some (k - 48) else None)"

text \<open>\<open>cutoff\<close> is the least word whose multiplication by ten overflows.\<close>

definition parse_cutoff :: uint64 where
  "parse_cutoff = (- 1) div 10 + 1"

fun parse_loop :: "uint64 \<Rightarrow> string \<Rightarrow> num_error + uint64" where
  "parse_loop n [] = Inr n"
| "parse_loop n (c # cs) =
     (case char_digit c of
        None \<Rightarrow> Inl ErrSyntax
      | Some d \<Rightarrow>
          if parse_cutoff \<le> n then Inl ErrRange
          else let n10 = n * 10; n1 = n10 + of_nat d
               in if n1 < n10 then Inl ErrRange else parse_loop n1 cs)"

definition ParseUint :: "string \<Rightarrow> num_error + uint64" where
  "ParseUint s = (if s = [] then Inl ErrSyntax else parse_loop 0 s)"

definition TrimLeft :: "string \<Rightarrow> char \<Rightarrow> string" where
  "TrimLeft s c = dropWhile (\<lambda>x. x = c) s"

section \<open>Digits\<close>

definition is_digit :: "char \<Rightarrow> bool" where
  "is_digit c = (48 \<le> (of_char c :: nat) \<and> (of_char c :: nat) \<le> 57)"

lemma of_char_digit_char [simp]: "d < 10 \<Longrightarrow> (of_char (digit_char d) :: nat) = 48 + d"
  by (simp add: digit_char_def)

lemma is_digit_digit_char [simp]: "d < 10 \<Longrightarrow> is_digit (digit_char d)"
  by (simp add: is_digit_def)

lemma char_digit_digit_char [simp]: "d < 10 \<Longrightarrow> char_digit (digit_char d) = Some d"
  by (simp add: char_digit_def)

lemma digit_char_inject: "d < 10 \<Longrightarrow> e < 10 \<Longrightarrow> digit_char d = digit_char e \<longleftrightarrow> d = e"
  by (metis char_digit_digit_char option.inject)

lemma digit_char_eq_0: "d < 10 \<Longrightarrow> digit_char d = CHR ''0'' \<longleftrightarrow> d = 0"
proof -
  have "CHR ''0'' = digit_char 0" by code_simp
  then show "d < 10 \<Longrightarrow> ?thesis" by (metis digit_char_inject zero_less_numeral)
qed

lemma dec_nat_not_Nil [simp]: "dec_nat n \<noteq> []"
  by (subst dec_nat.simps) simp

lemma dec_nat_digits: "c \<in> set (dec_nat n) \<Longrightarrow> is_digit c"
proof (induction n rule: dec_nat.induct)
  case (1 n)
  then show ?case
    by (subst (asm) dec_nat.simps) (auto split: if_splits)
qed

lemma dec_nat_rec: "10 \<le> n \<Longrightarrow> dec_nat n = dec_nat (n div 10) @ [digit_char (n mod 10)]"
  by (subst dec_nat.simps) simp

lemma dec_nat_lt10: "n < 10 \<Longrightarrow> dec_nat n = [digit_char n]"
  by (subst dec_nat.simps) simp

lemma hd_dec_nat: "0 < n \<Longrightarrow> hd (dec_nat n) \<noteq> CHR ''0''"
proof (induction n rule: dec_nat.induct)
  case (1 n)
  show ?case
  proof (cases "n < 10")
    case True
    with "1.prems" show ?thesis by (simp add: dec_nat_lt10 digit_char_eq_0)
  next
    case False
    with "1.IH" have "hd (dec_nat (n div 10)) \<noteq> CHR ''0''" by simp
    with False show ?thesis by (simp add: dec_nat_rec hd_append)
  qed
qed

text \<open>A number below \<open>10 ^ k\<close> has at most \<open>k\<close> digits.\<close>

lemma length_dec_nat: "n < 10 ^ k \<Longrightarrow> 0 < k \<Longrightarrow> length (dec_nat n) \<le> k"
proof (induction n arbitrary: k rule: dec_nat.induct)
  case (1 n)
  show ?case
  proof (cases "n < 10")
    case True
    with "1.prems" show ?thesis by (simp add: dec_nat_lt10)
  next
    case False
    obtain j where k: "k = Suc j" using "1.prems"(2) by (cases k) auto
    have j: "0 < j" using False "1.prems"(1) unfolding k by (cases j) auto
    have "n div 10 < 10 ^ j" using "1.prems"(1) unfolding k by (simp add: div_less_iff_less_mult mult.commute)
    with "1.IH" False j have "length (dec_nat (n div 10)) \<le> j" by simp
    with False k show ?thesis by (simp add: dec_nat_rec)
  qed
qed

section \<open>The parser against its specification\<close>

text \<open>The number a digit string denotes, over unbounded naturals.\<close>

fun dec_val :: "nat \<Rightarrow> string \<Rightarrow> nat" where
  "dec_val n [] = n"
| "dec_val n (c # cs) = dec_val (n * 10 + (of_char c - 48)) cs"

lemma dec_val_append: "dec_val n (xs @ ys) = dec_val (dec_val n xs) ys"
  by (induction xs arbitrary: n) auto

lemma dec_val_dec_nat [simp]: "dec_val 0 (dec_nat n) = n"
proof (induction n rule: dec_nat.induct)
  case (1 n)
  then show ?case
    by (cases "n < 10") (auto simp: dec_nat_lt10 dec_nat_rec dec_val_append)
qed

lemma dec_nat_inject [simp]: "dec_nat m = dec_nat n \<longleftrightarrow> m = n"
  by (metis dec_val_dec_nat)

lemma dec_val_mono: "n \<le> dec_val n s"
proof (induction s arbitrary: n)
  case (Cons c s)
  have "n \<le> n * 10 + (of_char c - 48)" by simp
  also have "\<dots> \<le> dec_val (n * 10 + (of_char c - 48)) s" by (rule Cons.IH)
  finally show ?case by simp
qed simp

lemma dec_val_zeros: "dec_val 0 (dropWhile (\<lambda>x. x = CHR ''0'') s) = dec_val 0 s"
  by (induction s) auto

lemma char_digit_eq_Some: "char_digit c = Some d \<longleftrightarrow> is_digit c \<and> d = of_char c - 48"
  by (auto simp: char_digit_def is_digit_def Let_def)

lemma char_digit_eq_None: "char_digit c = None \<longleftrightarrow> \<not> is_digit c"
  by (auto simp: char_digit_def is_digit_def Let_def)

text \<open>
  One round of the loop on words: the two overflow checks of \<open>ParseUint\<close> refuse
  exactly the rounds whose exact result needs more than 64 bits.
\<close>

lemma parse_round:
  fixes n :: uint64
  assumes d: "d < 10"
  shows "(parse_cutoff \<le> n \<or> n * 10 + of_nat d < n * 10) \<longleftrightarrow> 2 ^ 64 \<le> unat n * 10 + d"
    and "unat n * 10 + d < 2 ^ 64 \<Longrightarrow> unat (n * 10 + of_nat d) = unat n * 10 + d"
proof -
  have cut: "unat parse_cutoff = 1844674407370955162"
    by (simp add: parse_cutoff_def)
  have d64: "unat (of_nat d :: uint64) = d" using d by (simp add: unat_of_nat)
  have mult: "unat (n * 10) = unat n * 10" if "n < parse_cutoff"
    using that cut by (simp add: word_less_nat_alt unat_word_ariths)
  have sum: "unat (n * 10 + of_nat d) = (unat n * 10 + d) mod 2 ^ 64"
    if "n < parse_cutoff"
    using mult [OF that] d64 by (simp add: unat_word_ariths)
  show "unat n * 10 + d < 2 ^ 64 \<Longrightarrow> unat (n * 10 + of_nat d) = unat n * 10 + d"
    using d by (simp add: unat_word_ariths d64 mod_simps)
  show "(parse_cutoff \<le> n \<or> n * 10 + of_nat d < n * 10) \<longleftrightarrow> 2 ^ 64 \<le> unat n * 10 + d"
  proof (cases "parse_cutoff \<le> n")
    case True
    then show ?thesis using cut by (simp add: word_le_nat_alt)
  next
    case False
    then have lt: "n < parse_cutoff" by simp
    then have "unat n < 1844674407370955162" using cut by (simp add: word_less_nat_alt)
    then have "(unat n * 10 + d) mod 2 ^ 64 < unat n * 10 \<longleftrightarrow> 2 ^ 64 \<le> unat n * 10 + d"
      using d by (simp add: mod_if) linarith
    with False show ?thesis
      by (simp add: word_less_nat_alt [of "n * 10 + of_nat d"] sum [OF lt] mult [OF lt])
  qed
qed

lemma parse_loop_iff:
  "parse_loop n s = Inr w \<longleftrightarrow>
     (\<forall>c \<in> set s. is_digit c) \<and> dec_val (unat n) s < 2 ^ 64 \<and> unat w = dec_val (unat n) s"
proof (induction s arbitrary: n)
  case Nil
  then show ?case using unsigned_less [of n] by (auto simp: word_unat_eq_iff)
next
  case (Cons c cs)
  show ?case
  proof (cases "char_digit c")
    case None
    then show ?thesis using char_digit_eq_None [of c] by simp
  next
    case (Some d)
    then have d: "is_digit c" "d = of_char c - 48" "d < 10"
      by (auto simp: char_digit_eq_Some is_digit_def)
    show ?thesis
    proof (cases "2 ^ 64 \<le> unat n * 10 + d")
      case True
      then have "2 ^ 64 \<le> dec_val (unat n * 10 + d) cs" by (rule le_trans) (rule dec_val_mono)
      with True Some d show ?thesis
        using parse_round(1) [OF d(3), of n] by (auto simp: Let_def not_less)
    next
      case False
      then have "\<not> parse_cutoff \<le> n" "\<not> n * 10 + of_nat d < n * 10"
        using parse_round(1) [OF d(3), of n] by auto
      with False Some d show ?thesis
        using parse_round(2) [OF d(3), of n] by (simp add: Let_def Cons.IH)
    qed
  qed
qed

lemma ParseUint_iff:
  "ParseUint s = Inr w \<longleftrightarrow>
     s \<noteq> [] \<and> (\<forall>c \<in> set s. is_digit c) \<and> dec_val 0 s < 2 ^ 64 \<and> unat w = dec_val 0 s"
  by (simp add: ParseUint_def parse_loop_iff)

lemma ParseUint_FormatUint [simp]: "ParseUint (FormatUint w) = Inr w"
  using unsigned_less [of w] by (auto simp: ParseUint_iff FormatUint_def dest: dec_nat_digits)

end
