(* ===== verification/Codec.thy ===== *)
theory Codec
  imports Domain GoNum
begin

text \<open>
  The subjects and offsets of \<open>internal/repositories/jetstream/codec.go\<close>: the subject of
  each kind of message, the subject patterns a subscription watches, and the text form
  of a stream sequence number.
\<close>

section \<open>Subjects\<close>

definition rawSubject :: "string \<Rightarrow> string" where
  "rawSubject actorID = ''zonyx.raw.'' @ actorID"

definition zoneSubject :: "string \<Rightarrow> string" where
  "zoneSubject actorID = ''zonyx.zone.'' @ actorID"

definition presenceSubject :: "string \<Rightarrow> string" where
  "presenceSubject actorID = ''zonyx.presence.'' @ actorID"

definition commandSubject :: "string \<Rightarrow> string" where
  "commandSubject actorID = ''zonyx.command.'' @ actorID"

lemmas subject_defs = rawSubject_def zoneSubject_def presenceSubject_def commandSubject_def

lemma subject_inject [simp]:
  "rawSubject a = rawSubject b \<longleftrightarrow> a = b" "zoneSubject a = zoneSubject b \<longleftrightarrow> a = b"
  "presenceSubject a = presenceSubject b \<longleftrightarrow> a = b" "commandSubject a = commandSubject b \<longleftrightarrow> a = b"
  by (simp_all add: subject_defs)

lemma subject_distinct [simp]:
  "rawSubject a \<noteq> zoneSubject b" "rawSubject a \<noteq> presenceSubject b" "rawSubject a \<noteq> commandSubject b"
  "zoneSubject a \<noteq> rawSubject b" "zoneSubject a \<noteq> presenceSubject b" "zoneSubject a \<noteq> commandSubject b"
  "presenceSubject a \<noteq> rawSubject b" "presenceSubject a \<noteq> zoneSubject b" "presenceSubject a \<noteq> commandSubject b"
  "commandSubject a \<noteq> rawSubject b" "commandSubject a \<noteq> zoneSubject b" "commandSubject a \<noteq> presenceSubject b"
  by (simp_all add: subject_defs)

definition allChangeSubjects :: "string list" where
  "allChangeSubjects = [''zonyx.zone.>'', ''zonyx.presence.>'', ''zonyx.command.>'']"

text \<open>The \<open>switch\<close> of \<open>watchSubjects\<close>: \<open>None\<close> is the \<open>continue\<close> of an unknown type.\<close>

definition subject_of_type :: "event_type \<Rightarrow> string option" where
  "subject_of_type t =
     (if t = EventTypeZone then Some ''zonyx.zone.>''
      else if t = EventTypePresence then Some ''zonyx.presence.>''
      else if t = EventTypeCommand then Some ''zonyx.command.>''
      else None)"

text \<open>The loop, with the set \<open>seen\<close> and the list \<open>out\<close>.\<close>

fun watch_loop :: "event_type list \<Rightarrow> string set \<Rightarrow> string list \<Rightarrow> string list" where
  "watch_loop [] seen out = out"
| "watch_loop (t # ts) seen out =
     (case subject_of_type t of
        None \<Rightarrow> watch_loop ts seen out
      | Some s \<Rightarrow> if s \<notin> seen then watch_loop ts (insert s seen) (out @ [s])
                  else watch_loop ts seen out)"

definition watchSubjects :: "event_type list \<Rightarrow> string list" where
  "watchSubjects types =
     (if length types = 0 then allChangeSubjects else watch_loop types {} [])"

section \<open>Offsets\<close>

definition encodeOffset :: "uint64 \<Rightarrow> string" where
  "encodeOffset seq =
     (let s = FormatUint seq
      in if length s < 3 then concat (replicate (3 - length s) ''0'') @ s else s)"

datatype offset_error = ZeroSequence string | InvalidOffset string num_error

definition decodeOffset :: "string \<Rightarrow> offset_error + uint64" where
  "decodeOffset offset =
     (case ParseUint (TrimLeft offset CHR ''0'') of
        Inl err \<Rightarrow>
          if TrimLeft offset CHR ''0'' = '''' then Inl (ZeroSequence offset)
          else Inl (InvalidOffset offset err)
      | Inr seq \<Rightarrow> Inr seq)"

section \<open>Facts\<close>

lemma watch_loop_spec:
  assumes "distinct out" and "set out = seen"
  shows "set (watch_loop ts seen out) = seen \<union> {s. \<exists>t \<in> set ts. subject_of_type t = Some s}
    \<and> distinct (watch_loop ts seen out)"
  using assms
proof (induction ts arbitrary: seen out)
  case Nil
  then show ?case by simp
next
  case (Cons t ts)
  show ?case
  proof (cases "subject_of_type t")
    case None
    with Cons show ?thesis by auto
  next
    case (Some s)
    with Cons.IH [where seen = seen and out = out]
      Cons.IH [where seen = "insert s seen" and out = "out @ [s]"] Cons.prems
    show ?thesis by auto
  qed
qed

lemma subject_of_type_range: "subject_of_type t = Some s \<Longrightarrow> s \<in> set allChangeSubjects"
  by (auto simp: subject_of_type_def allChangeSubjects_def split: if_splits)

lemma length_FormatUint: "length (FormatUint seq) \<le> 20"
proof -
  have "unat seq < 2 ^ 64" using unsigned_less [of seq] by simp
  then have "unat seq < 10 ^ 20" by simp
  then show ?thesis by (simp add: FormatUint_def length_dec_nat)
qed

lemma dropWhile_zeros: "dropWhile (\<lambda>x. x = c) (replicate n c @ s) = dropWhile (\<lambda>x. x = c) s"
  by (induction n) auto

lemma TrimLeft_FormatUint: "seq \<noteq> 0 \<Longrightarrow> TrimLeft (FormatUint seq) CHR ''0'' = FormatUint seq"
proof -
  assume "seq \<noteq> 0"
  then have "hd (FormatUint seq) \<noteq> CHR ''0''"
    unfolding FormatUint_def by (intro hd_dec_nat) (simp add: unat_gt_0)
  moreover have "FormatUint seq \<noteq> []" by (simp add: FormatUint_def)
  ultimately show ?thesis
    by (cases "FormatUint seq") (auto simp: TrimLeft_def)
qed

lemma TrimLeft_encodeOffset:
  "seq \<noteq> 0 \<Longrightarrow> TrimLeft (encodeOffset seq) CHR ''0'' = FormatUint seq"
  using TrimLeft_FormatUint [of seq]
  by (simp add: encodeOffset_def Let_def TrimLeft_def dropWhile_zeros)

lemma decode_encode [simp]: "seq \<noteq> 0 \<Longrightarrow> decodeOffset (encodeOffset seq) = Inr seq"
  by (simp add: decodeOffset_def TrimLeft_encodeOffset)

text \<open>A decoded offset is a nonzero number whose value the digits denote.\<close>

lemma decodeOffset_Inr_iff:
  "decodeOffset s = Inr seq \<longleftrightarrow>
     (\<forall>c \<in> set s. is_digit c) \<and> 0 < dec_val 0 s \<and> dec_val 0 s < 2 ^ 64 \<and> unat seq = dec_val 0 s"
proof -
  have digits: "(\<forall>c \<in> set s. is_digit c) \<longleftrightarrow> (\<forall>c \<in> set (TrimLeft s CHR ''0''). is_digit c)"
    by (induction s) (auto simp: TrimLeft_def is_digit_def)
  have "0 < dec_val 0 s \<longleftrightarrow> TrimLeft s CHR ''0'' \<noteq> []"
    if "\<forall>c \<in> set s. is_digit c"
    using that
  proof (induction s)
    case (Cons c s)
    show ?case
    proof (cases "c = CHR ''0''")
      case True
      with Cons show ?thesis by (simp add: TrimLeft_def)
    next
      case False
      have "of_char c \<noteq> (48 :: nat)"
      proof
        assume "of_char c = (48 :: nat)"
        then have "of_char c = (of_char CHR ''0'' :: nat)" by simp
        with False show False by (simp only: of_char_eq_iff)
      qed
      with Cons.prems have "0 < (of_char c :: nat) - 48" by (auto simp: is_digit_def)
      also have "\<dots> \<le> dec_val ((of_char c :: nat) - 48) s" by (rule dec_val_mono)
      finally show ?thesis using False by (simp add: TrimLeft_def)
    qed
  qed (simp add: TrimLeft_def)
  then have nz: "(\<forall>c \<in> set s. is_digit c) \<and> 0 < dec_val 0 s \<longleftrightarrow>
      TrimLeft s CHR ''0'' \<noteq> [] \<and> (\<forall>c \<in> set (TrimLeft s CHR ''0''). is_digit c)"
    using digits by blast
  have "decodeOffset s = Inr seq \<longleftrightarrow> ParseUint (TrimLeft s CHR ''0'') = Inr seq"
    by (auto simp: decodeOffset_def split: sum.split)
  also have "\<dots> \<longleftrightarrow> TrimLeft s CHR ''0'' \<noteq> [] \<and> (\<forall>c \<in> set (TrimLeft s CHR ''0''). is_digit c)
      \<and> dec_val 0 s < 2 ^ 64 \<and> unat seq = dec_val 0 s"
    using dec_val_zeros [of s] by (simp only: ParseUint_iff TrimLeft_def)
  finally show ?thesis using nz by blast
qed

text \<open>Offsets are a codec for the sequence numbers a stream assigns, which start at 1.\<close>

interpretation offset_codec: codec "\<lambda>seq. Inr (encodeOffset seq)" decodeOffset "\<lambda>seq. seq \<noteq> 0"
  by unfold_locales simp

section \<open>Properties\<close>

text \<open>
  A subscription watches no subject pattern twice; without a type filter it watches
  the three change patterns, with one exactly the patterns of the known types in it; the
  raw subjects are never among them.
\<close>

lemma watchSubjects_spec:
  "distinct (watchSubjects types)
   \<and> set (watchSubjects types)
       = (if types = [] then {''zonyx.zone.>'', ''zonyx.presence.>'', ''zonyx.command.>''}
          else set (List.map_filter subject_of_type types))
   \<and> set (watchSubjects types) \<subseteq> {''zonyx.zone.>'', ''zonyx.presence.>'', ''zonyx.command.>''}"
proof -
  have "set (List.map_filter subject_of_type types) = {s. \<exists>t \<in> set types. subject_of_type t = Some s}"
    by (force simp: List.map_filter_def)
  moreover have "{s. \<exists>t \<in> set types. subject_of_type t = Some s}
      \<subseteq> {''zonyx.zone.>'', ''zonyx.presence.>'', ''zonyx.command.>''}"
    using subject_of_type_range by (auto simp: allChangeSubjects_def)
  ultimately show ?thesis
    using watch_loop_spec [of "[]" "{}" types]
    by (auto simp: watchSubjects_def allChangeSubjects_def)
qed

text \<open>
  An offset has at least three and at most twenty characters, within the bounds of
  the wire contract, and decoding it gives back the sequence number; only the sequence
  number 0, which no stream assigns, is refused.
\<close>

lemma offset_roundtrip:
  "3 \<le> length (encodeOffset seq) \<and> length (encodeOffset seq) \<le> 20
   \<and> decodeOffset (encodeOffset seq) = (if seq = 0 then Inl (ZeroSequence ''000'') else Inr seq)"
proof -
  have "decodeOffset (encodeOffset 0) = Inl (ZeroSequence ''000'')" by code_simp
  moreover have "3 \<le> length (encodeOffset seq)" "length (encodeOffset seq) \<le> 20"
    using length_FormatUint [of seq]
    by (auto simp: encodeOffset_def Let_def length_concat sum_list_replicate)
  ultimately show ?thesis by simp
qed

text \<open>
  C37: \<open>decodeOffset\<close> accepts exactly the strings of decimal digits that denote a number
  from 1 to \<open>2 ^ 64 - 1\<close>, with any number of leading zeros, and returns that number.
\<close>

lemma decodeOffset_accepts:
  "decodeOffset s = Inr seq \<longleftrightarrow>
     list_all is_digit s \<and> 0 < dec_val 0 s \<and> dec_val 0 s < 2 ^ 64 \<and> unat seq = dec_val 0 s"
  by (simp add: decodeOffset_Inr_iff list_all_iff)

end
