(* ===== verification/Machine.thy ===== *)
theory Machine
  imports Prelude
begin

text \<open>
  Components that consume inputs one by one and produce outputs: the run of a step
  function over a list of inputs, and the interface under which an invariant of the
  state and of the outputs so far is carried through a run.
\<close>

fun run :: "('s \<Rightarrow> 'i \<Rightarrow> 'o list \<times> 's) \<Rightarrow> 's \<Rightarrow> 'i list \<Rightarrow> 'o list \<times> 's" where
  "run step s [] = ([], s)"
| "run step s (i # is) =
     (let (out, s') = step s i; (outs, s'') = run step s' is in (out @ outs, s''))"

lemma run_append:
  "run step s (is @ js) =
     (let (out, s') = run step s is; (outs, s'') = run step s' js in (out @ outs, s''))"
  by (induction "is" arbitrary: s) (auto simp: Let_def split: prod.split)

lemma run_snoc:
  "run step s (is @ [i]) =
     (let (out, s') = run step s is; (outs, s'') = step s' i in (out @ outs, s''))"
  by (simp add: run_append Let_def split: prod.split)

text \<open>
  The interface: a start state, the inputs the environment may give (\<open>ok\<close>) and an
  invariant relating the inputs consumed, the outputs produced and the state.
\<close>

locale io_machine =
  fixes step :: "'s \<Rightarrow> 'i \<Rightarrow> 'o list \<times> 's"
    and start :: 's
    and ok :: "'i \<Rightarrow> bool"
    and inv :: "'i list \<Rightarrow> 'o list \<Rightarrow> 's \<Rightarrow> bool"
  assumes inv_start: "inv [] [] start"
    and inv_step: "ok i \<Longrightarrow> inv is outs s \<Longrightarrow> inv (is @ [i]) (outs @ fst (step s i)) (snd (step s i))"
begin

lemma inv_run:
  assumes "list_all ok is"
  shows "inv is (fst (run step start is)) (snd (run step start is))"
  using assms
proof (induction "is" rule: rev_induct)
  case Nil
  show ?case by (simp add: inv_start)
next
  case (snoc i "is")
  then have "inv is (fst (run step start is)) (snd (run step start is))" and "ok i"
    by simp_all
  from inv_step [OF this(2,1)] show ?case
    by (simp add: run_snoc Let_def case_prod_beta)
qed

end

section \<open>Machines that come to an end\<close>

text \<open>A sequence of labelled steps of a transition relation.\<close>

inductive steps :: "('s \<Rightarrow> 'l \<Rightarrow> 's \<Rightarrow> bool) \<Rightarrow> 's \<Rightarrow> 'l list \<Rightarrow> 's \<Rightarrow> bool"
  for step :: "'s \<Rightarrow> 'l \<Rightarrow> 's \<Rightarrow> bool" where
  none: "steps step s [] s"
| more: "step s l t \<Longrightarrow> steps step t ls u \<Longrightarrow> steps step s (l # ls) u"

inductive_cases steps_ConsE: "steps step s (l # ls) u"

inductive_simps steps_Nil [simp]: "steps step s [] u"

inductive_simps steps_Cons: "steps step s (l # ls) u"

lemma steps_append: "steps step s (ls @ ms) u \<longleftrightarrow> (\<exists>t. steps step s ls t \<and> steps step t ms u)"
  by (induction ls arbitrary: s) (auto simp: steps_Cons)

lemma steps_snoc: "steps step s (ls @ [l]) u \<longleftrightarrow> (\<exists>t. steps step s ls t \<and> step t l u)"
  by (simp add: steps_append steps_Cons)

text \<open>An invariant of the labels so far and the state.\<close>

lemma steps_invariant:
  assumes "steps step s ls t" and "P [] s"
    and "\<And>ls s l t. P ls s \<Longrightarrow> step s l t \<Longrightarrow> P (ls @ [l]) t"
  shows "P ls t"
  using assms(1)
  by (induction ls arbitrary: t rule: rev_induct) (auto simp: assms(2) steps_snoc intro: assms(3))

text \<open>
  The interface of a machine that cannot run for ever: under the labels the environment may
  still give (\<open>allowed\<close>), every step keeps the invariant and decreases the work left, and as
  long as the machine has not finished there is such a step.
\<close>

locale terminating =
  fixes step :: "'s \<Rightarrow> 'l \<Rightarrow> 's \<Rightarrow> bool"
    and inv :: "'s \<Rightarrow> bool"
    and allowed :: "'l \<Rightarrow> bool"
    and work :: "'s \<Rightarrow> nat"
    and final :: "'s \<Rightarrow> bool"
  assumes decreases: "inv s \<Longrightarrow> allowed l \<Longrightarrow> step s l t \<Longrightarrow> inv t \<and> work t < work s"
    and progress: "inv s \<Longrightarrow> \<not> final s \<Longrightarrow> \<exists>l t. allowed l \<and> step s l t"
begin

lemma steps_bounded:
  assumes "steps step s ls t" and "inv s" and "list_all allowed ls"
  shows "inv t \<and> length ls + work t \<le> work s"
  using assms
proof (induction rule: steps.induct)
  case (more s l t ls u)
  then have "inv t" "work t < work s" using decreases [of s l t] by simp_all
  with more show ?case by simp
qed simp

lemma stuck_is_final:
  assumes "steps step s ls t" and "inv s" and "list_all allowed ls"
    and "\<And>l u. allowed l \<Longrightarrow> \<not> step t l u"
  shows "final t"
  using steps_bounded [OF assms(1-3)] progress assms(4) by blast

lemma reaches_final:
  assumes "inv s"
  shows "\<exists>ls t. list_all allowed ls \<and> steps step s ls t \<and> final t"
  using assms
proof (induction "work s" arbitrary: s rule: less_induct)
  case less
  show ?case
  proof (cases "final s")
    case True
    then have "list_all allowed [] \<and> steps step s [] s \<and> final s" by simp
    then show ?thesis by blast
  next
    case False
    with less.prems progress obtain l t where l: "allowed l" "step s l t" by blast
    with less.prems decreases have "inv t" "work t < work s" by blast+
    with less.hyps obtain ls u where "list_all allowed ls" "steps step t ls u" "final u" by blast
    with l have "list_all allowed (l # ls) \<and> steps step s (l # ls) u \<and> final u"
      by (auto intro: steps.more)
    then show ?thesis by blast
  qed
qed

end

end
