(* ===== verification/ChangeDetector.thy ===== *)
theory ChangeDetector
  imports Machine
begin

text \<open>
  The contract the two change detectors of the repository share. A detector consumes
  elements and publishes some of them. For the elements it is responsible for
  (\<open>relevant\<close>) it publishes exactly those that its state does not call unchanged, and
  after publishing, the state calls unchanged what is the same as the published
  element; other elements do not disturb it.
\<close>

locale change_detector =
  fixes step :: "'s \<Rightarrow> 'e \<Rightarrow> 'e list \<times> 's"
    and relevant :: "'e \<Rightarrow> bool"
    and unchanged :: "'s \<Rightarrow> 'e \<Rightarrow> bool"
    and same :: "'e \<Rightarrow> 'e \<Rightarrow> bool"
  assumes same_refl: "same e e"
    and step_unchanged: "relevant e \<Longrightarrow> unchanged s e \<Longrightarrow> step s e = ([], s)"
    and step_changed: "relevant e \<Longrightarrow> \<not> unchanged s e \<Longrightarrow> fst (step s e) = [e]"
    and step_remembers: "relevant e \<Longrightarrow> \<not> unchanged s e \<Longrightarrow> unchanged (snd (step s e)) e' \<longleftrightarrow> same e e'"
    and step_other: "\<not> relevant e \<Longrightarrow> filter relevant (fst (step s e)) = []"
    and step_frame: "\<not> relevant e \<Longrightarrow> unchanged (snd (step s e)) e' \<longleftrightarrow> unchanged s e'"
begin

text \<open>What the state knows: nothing yet, or the last relevant element published.\<close>

definition knows :: "'s \<Rightarrow> 'e option \<Rightarrow> bool" where
  "knows s p \<longleftrightarrow> (\<forall>e. unchanged s e \<longleftrightarrow> (case p of None \<Rightarrow> False | Some q \<Rightarrow> same q e))"

definition last_relevant :: "'e list \<Rightarrow> 'e option" where
  "last_relevant = last_such relevant (\<lambda>e. e)"

lemma last_relevant_append [simp]:
  "last_relevant (xs @ ys) = newer (last_relevant xs) (last_relevant ys)"
  by (simp add: last_relevant_def)

lemma last_relevant_Nil [simp]: "last_relevant [] = None"
  by (simp add: last_relevant_def)

lemma last_relevant_none: "filter relevant xs = [] \<Longrightarrow> last_relevant xs = None"
  by (simp add: last_relevant_def last_such_def)

lemma last_relevant_single [simp]: "last_relevant [e] = (if relevant e then Some e else None)"
  by (simp add: last_relevant_def)

lemma step_knows:
  assumes "knows s p"
  shows "knows (snd (step s e)) (newer p (last_relevant (fst (step s e))))"
proof (cases "relevant e")
  case True
  with assms show ?thesis
    by (cases "unchanged s e") (auto simp: knows_def step_unchanged step_changed step_remembers)
next
  case False
  with assms show ?thesis
    by (simp add: knows_def step_frame last_relevant_none [OF step_other])
qed

lemma run_knows:
  "knows s p \<Longrightarrow> knows (snd (run step s es)) (newer p (last_relevant (fst (run step s es))))"
proof (induction es arbitrary: s p)
  case (Cons e es)
  from Cons.IH [OF step_knows [OF Cons.prems, of e]] show ?case
    by (simp add: case_prod_beta newer_assoc)
qed simp

text \<open>The last relevant element is always shown by the last one published.\<close>

lemma step_shows:
  assumes "knows s p" and "relevant e"
  shows "\<exists>q. newer p (last_relevant (fst (step s e))) = Some q \<and> same q e"
  using assms
  by (cases "unchanged s e") (auto simp: knows_def step_unchanged step_changed same_refl split: option.splits)

lemma run_shows:
  assumes "knows s p" and "last_relevant es = Some e"
  shows "\<exists>q. newer p (last_relevant (fst (run step s es))) = Some q \<and> same q e"
  using assms(2)
proof (induction es rule: rev_induct)
  case (snoc x es)
  let ?s = "snd (run step s es)" and ?p = "newer p (last_relevant (fst (run step s es)))"
  have known: "knows ?s ?p" by (rule run_knows [OF assms(1)])
  have split: "newer p (last_relevant (fst (run step s (es @ [x])))) = newer ?p (last_relevant (fst (step ?s x)))"
    by (simp add: run_snoc case_prod_beta newer_assoc)
  show ?case
  proof (cases "relevant x")
    case True
    with snoc.prems have "x = e" by simp
    with True step_shows [OF known, of x] split show ?thesis by simp
  next
    case False
    with snoc split show ?thesis by (simp add: last_relevant_none [OF step_other])
  qed
qed simp

text \<open>No two neighbours among the relevant elements published are the same.\<close>

lemma run_no_repeats:
  assumes "knows s p"
  shows "successively (\<lambda>q r. \<not> same q r)
     ((case p of None \<Rightarrow> [] | Some q \<Rightarrow> [q]) @ filter relevant (fst (run step s es)))"
  using assms
proof (induction es arbitrary: s p)
  case Nil
  then show ?case by (simp split: option.split)
next
  case (Cons e es)
  note next_knows = step_knows [OF Cons.prems, of e]
  show ?case
  proof (cases "relevant e \<and> \<not> unchanged s e")
    case True
    then have "fst (step s e) = [e]" by (simp add: step_changed)
    moreover have "\<forall>q. p = Some q \<longrightarrow> \<not> same q e" using True Cons.prems by (auto simp: knows_def)
    ultimately show ?thesis
      using Cons.IH [OF next_knows] True by (auto simp: case_prod_beta split: option.splits)
  next
    case False
    then have "filter relevant (fst (step s e)) = []"
      using step_unchanged [of e s] step_other [of e s] by (cases "relevant e") auto
    then show ?thesis
      using Cons.IH [OF next_knows] by (simp add: case_prod_beta last_relevant_none)
  qed
qed

text \<open>Only elements consumed are published, in order.\<close>

lemma run_subseq: "subseq (filter relevant (fst (run step s es))) (filter relevant es)"
proof (induction es arbitrary: s)
  case (Cons e es)
  show ?case
  proof (cases "relevant e")
    case True
    with Cons.IH [of "snd (step s e)"] show ?thesis
      by (cases "unchanged s e") (auto simp: case_prod_beta step_unchanged step_changed)
  next
    case False
    with Cons.IH [of "snd (step s e)"] show ?thesis
      by (simp add: case_prod_beta step_other)
  qed
qed simp

end

end
