(* ===== verification/Repository.thy ===== *)
theory Repository
  imports Wire Codec ChangeDetector
begin

text \<open>
  The write path of \<open>internal/repositories/jetstream/repository.go\<close>: provisioning,
  \<open>Write\<close> with its two change detectors, the per-actor state in the cache and in the KV
  bucket. NATS is not part of the repository: the calls the code makes are the fields of
  the record \<open>nats\<close>, functions on a world of any type \<open>'w\<close>, and what the code relies on is
  the predicate \<open>reliable\<close>. Cancellation of the context is seen as an error of the call it
  interrupts. The lock only protects the cache map; \<open>Write\<close> is one
  step here, and \<open>ConcurrentWrites\<close> takes it apart.
\<close>

section \<open>State\<close>

record actorState =
  zones :: "string list"
  as_presence :: presence_type
  locationType :: string
  movementStatus :: string
  hasZones :: bool
  hasPresence :: bool

definition zero_actorState :: actorState where
  "zero_actorState = \<lparr>zones = [], as_presence = PresenceTypeUnspecified, locationType = '''',
     movementStatus = '''', hasZones = False, hasPresence = False\<rparr>"

record kvActorState =
  kv_Zones :: "string list"
  kv_Presence :: int
  kv_LocationType :: string
  kv_MovementStatus :: string
  kv_HasZones :: bool
  kv_HasPresence :: bool

definition zero_kvas :: kvActorState where
  "zero_kvas = \<lparr>kv_Zones = [], kv_Presence = 0, kv_LocationType = '''', kv_MovementStatus = '''',
     kv_HasZones = False, kv_HasPresence = False\<rparr>"

text \<open>The JSON form of \<open>kvActorState\<close> by its tags; no field of it can fail to encode.\<close>

definition enc_kvas :: "kvActorState \<Rightarrow> json result" where
  "enc_kvas v = Inr (JObject
     (omit_if (kv_Zones v = []) ''z'' (enc_strs (kv_Zones v))
      @ [(''p'', JInt (kv_Presence v))]
      @ omit_if (kv_LocationType v = '''') ''lt'' (enc_str (kv_LocationType v))
      @ omit_if (kv_MovementStatus v = '''') ''ms'' (enc_str (kv_MovementStatus v))
      @ [(''hz'', JBool (kv_HasZones v)), (''hp'', JBool (kv_HasPresence v))]))"

definition dec_kvas :: "(string \<times> json) list \<Rightarrow> kvActorState result" where
  "dec_kvas kvs = rbind (struct_field dec_strs [] ''z'' kvs) (\<lambda>z.
     rbind (struct_field dec_int_json 0 ''p'' kvs) (\<lambda>p.
     rbind (struct_field dec_str '''' ''lt'' kvs) (\<lambda>lt.
     rbind (struct_field dec_str '''' ''ms'' kvs) (\<lambda>ms.
     rbind (struct_field dec_bool False ''hz'' kvs) (\<lambda>hz.
     rbind (struct_field dec_bool False ''hp'' kvs) (\<lambda>hp.
       Inr \<lparr>kv_Zones = z, kv_Presence = p, kv_LocationType = lt, kv_MovementStatus = ms,
            kv_HasZones = hz, kv_HasPresence = hp\<rparr>))))))"

definition unmarshal_kvas :: "payload \<Rightarrow> kvActorState result" where
  "unmarshal_kvas data = (case data of
       Malformed \<Rightarrow> Inl (ErrorString ''json: invalid character'')
     | Payload j \<Rightarrow> dec_object dec_kvas zero_kvas j)"

section \<open>NATS, as the code calls it\<close>

datatype nats_const = FileStorage | LimitsPolicy

record stream_config =
  sc_Name :: string
  sc_Subjects :: "string list"
  sc_Storage :: nats_const
  sc_Retention :: nats_const
  sc_MaxAge :: duration

record kv_config =
  kc_Bucket :: string
  kc_TTL :: duration
  kc_Storage :: nats_const

record 'w nats =
  nc_JetStream :: "'w \<Rightarrow> go_error option"
  js_AddStream :: "stream_config \<Rightarrow> 'w \<Rightarrow> go_error option \<times> 'w"
  js_CreateKeyValue :: "kv_config \<Rightarrow> 'w \<Rightarrow> go_error option \<times> 'w"
  js_KeyValue :: "string \<Rightarrow> 'w \<Rightarrow> go_error option \<times> 'w"
  js_PublishMsg :: "string \<Rightarrow> payload \<Rightarrow> 'w \<Rightarrow> uint64 result \<times> 'w"
  kv_Get :: "string \<Rightarrow> 'w \<Rightarrow> payload result"
  kv_Put :: "string \<Rightarrow> payload \<Rightarrow> 'w \<Rightarrow> uint64 result \<times> 'w"
  JSErrCodeStreamNameInUse :: int

record 'w repository =
  cache :: "string \<Rightarrow> actorState option"
  world :: 'w

section \<open>Construction\<close>

definition streamName :: string where "streamName = ''ZONYX_EVENTS''"
definition streamSubject :: string where "streamSubject = ''zonyx.>''"
definition kvBucket :: string where "kvBucket = ''ZONYX_ACTOR_STATE''"
definition defaultMaxAge :: duration where "defaultMaxAge = 7 * 24 * 3600 * second"

text \<open>\<open>errors.As(err, &apiErr)\<close>: the first API error in the chain.\<close>

fun err_as_api :: "go_error \<Rightarrow> int option" where
  "err_as_api (NatsAPIError c) = Some c"
| "err_as_api (Wrapped s e) = err_as_api e"
| "err_as_api _ = None"

definition provisionStream :: "'w nats \<Rightarrow> duration \<Rightarrow> 'w \<Rightarrow> go_error option \<times> 'w" where
  "provisionStream N maxAge w =
     (case js_AddStream N \<lparr>sc_Name = streamName, sc_Subjects = [streamSubject], sc_Storage = FileStorage,
             sc_Retention = LimitsPolicy, sc_MaxAge = maxAge\<rparr> w of
        (None, w') \<Rightarrow> (None, w')
      | (Some err, w') \<Rightarrow>
          if err_is err ErrStreamNameAlreadyInUse then (None, w')
          else if err_as_api err = Some (JSErrCodeStreamNameInUse N) then (None, w')
          else (Some (Wrapped ''jetstream: provision stream'' err), w'))"

definition provisionKV :: "'w nats \<Rightarrow> duration \<Rightarrow> 'w \<Rightarrow> go_error option \<times> 'w" where
  "provisionKV N maxAge w =
     (case js_CreateKeyValue N \<lparr>kc_Bucket = kvBucket, kc_TTL = maxAge, kc_Storage = FileStorage\<rparr> w of
        (None, w') \<Rightarrow> (None, w')
      | (Some err, w') \<Rightarrow>
          if err_is err ErrStreamNameAlreadyInUse then
            (case js_KeyValue N kvBucket w' of
               (Some err', w'') \<Rightarrow> (Some (Wrapped ''jetstream: bind kv bucket'' err'), w'')
             | (None, w'') \<Rightarrow> (None, w''))
          else (Some (Wrapped ''jetstream: provision kv bucket'' err), w'))"

definition NewRepository :: "'w nats \<Rightarrow> duration \<Rightarrow> 'w \<Rightarrow> 'w repository result \<times> 'w" where
  "NewRepository N cfg_MaxAge w =
     (case nc_JetStream N w of
        Some err \<Rightarrow> (Inl (Wrapped ''jetstream: get context'' err), w)
      | None \<Rightarrow>
          let maxAge = (if cfg_MaxAge = 0 then defaultMaxAge else cfg_MaxAge) in
          (case provisionStream N maxAge w of
             (Some err, w') \<Rightarrow> (Inl err, w')
           | (None, w') \<Rightarrow>
               (case provisionKV N maxAge w' of
                  (Some err, w'') \<Rightarrow> (Inl err, w'')
                | (None, w'') \<Rightarrow> (Inr \<lparr>cache = (\<lambda>_. None), world = w''\<rparr>, w''))))"

section \<open>The per-actor state\<close>

definition actorState_of_kv :: "kvActorState \<Rightarrow> actorState" where
  "actorState_of_kv v = \<lparr>zones = kv_Zones v, as_presence = PresenceType (kv_Presence v),
     locationType = kv_LocationType v, movementStatus = kv_MovementStatus v,
     hasZones = kv_HasZones v, hasPresence = kv_HasPresence v\<rparr>"

definition kv_of_actorState :: "actorState \<Rightarrow> kvActorState" where
  "kv_of_actorState s = \<lparr>kv_Zones = zones s, kv_Presence = pt_code (as_presence s),
     kv_LocationType = locationType s, kv_MovementStatus = movementStatus s,
     kv_HasZones = hasZones s, kv_HasPresence = hasPresence s\<rparr>"

definition setActorState :: "string \<Rightarrow> actorState \<Rightarrow> 'w repository \<Rightarrow> 'w repository" where
  "setActorState actorID s r = r\<lparr>cache := (cache r)(actorID \<mapsto> s)\<rparr>"

definition getActorState ::
  "'w nats \<Rightarrow> string \<Rightarrow> 'w repository \<Rightarrow> actorState \<times> go_error option \<times> 'w repository" where
  "getActorState N actorID r =
     (case cache r actorID of
        Some s \<Rightarrow> (s, None, r)
      | None \<Rightarrow>
          (case kv_Get N actorID (world r) of
             Inl err \<Rightarrow>
               if err_is err ErrKeyNotFound then (zero_actorState, None, r)
               else (zero_actorState, Some err, r)
           | Inr value \<Rightarrow>
               (case unmarshal_kvas value of
                  Inl jsonErr \<Rightarrow> (zero_actorState, Some jsonErr, r)
                | Inr kvas \<Rightarrow>
                    (actorState_of_kv kvas, None, setActorState actorID (actorState_of_kv kvas) r))))"

definition persistActorState ::
  "'w nats \<Rightarrow> string \<Rightarrow> actorState \<Rightarrow> 'w repository \<Rightarrow> go_error option \<times> 'w repository" where
  "persistActorState N actorID s r =
     (case enc_kvas (kv_of_actorState s) of
        Inl err \<Rightarrow> (Some err, r)
      | Inr j \<Rightarrow>
          (case kv_Put N actorID (Payload j) (world r) of
             (Inl err, w) \<Rightarrow> (Some err, r\<lparr>world := w\<rparr>)
           | (Inr _, w) \<Rightarrow> (None, r\<lparr>world := w\<rparr>)))"

text \<open>The labelled loop of the repository's own \<open>zonesEqual\<close>.\<close>

fun repo_zones_outer :: "string list \<Rightarrow> string list \<Rightarrow> bool" where
  "repo_zones_outer [] b = True"
| "repo_zones_outer (az # a) b = (if List.member b az then repo_zones_outer a b else False)"

definition repo_zonesEqual :: "string list \<Rightarrow> string list \<Rightarrow> bool" where
  "repo_zonesEqual a b = (if length a \<noteq> length b then False else repo_zones_outer a b)"

section \<open>Write\<close>

definition publish ::
  "'w nats \<Rightarrow> string \<Rightarrow> event \<Rightarrow> 'w repository \<Rightarrow> string result \<times> 'w repository" where
  "publish N subject e r =
     (case marshal e of
        Inl err \<Rightarrow> (Inl (Wrapped ''marshal'' err), r)
      | Inr data \<Rightarrow>
          (case js_PublishMsg N subject data (world r) of
             (Inl err, w) \<Rightarrow> (Inl err, r\<lparr>world := w\<rparr>)
           | (Inr seq, w) \<Rightarrow> (Inr (encodeOffset seq), r\<lparr>world := w\<rparr>)))"

definition zone_unchanged :: "actorState \<Rightarrow> event \<Rightarrow> bool" where
  "zone_unchanged prev e =
     (hasZones prev \<and> repo_zonesEqual (zones prev) (ev_zones e)
      \<and> locationType prev = map_get (actor_Metadata (ev_Actor e)) ''locationType''
      \<and> movementStatus prev = map_get (actor_Metadata (ev_Actor e)) ''movementStatus'')"

definition zone_recorded :: "actorState \<Rightarrow> event \<Rightarrow> actorState" where
  "zone_recorded prev e =
     prev\<lparr>zones := ev_zones e,
          locationType := map_get (actor_Metadata (ev_Actor e)) ''locationType'',
          movementStatus := map_get (actor_Metadata (ev_Actor e)) ''movementStatus'',
          hasZones := True\<rparr>"

definition handleZoneChange ::
  "'w nats \<Rightarrow> event \<Rightarrow> 'w repository \<Rightarrow> go_error option \<times> 'w repository" where
  "handleZoneChange N e r =
     (let (prev, _, r1) = getActorState N (ev_actor e) r in
      if zone_unchanged prev e then (None, r1)
      else
        (case publish N (zoneSubject (ev_actor e)) e r1 of
           (Inl err, r2) \<Rightarrow> (Some (Wrapped (''jetstream: write zone change event '' @ ev_ID e) err), r2)
         | (Inr _, r2) \<Rightarrow>
             let st = zone_recorded prev e;
                 (_, r3) = persistActorState N (ev_actor e) st (setActorState (ev_actor e) st r2)
             in (None, r3)))"

definition presence_unchanged :: "actorState \<Rightarrow> event \<Rightarrow> bool" where
  "presence_unchanged prev e = (hasPresence prev \<and> as_presence prev = ev_presence e)"

definition presence_recorded :: "actorState \<Rightarrow> event \<Rightarrow> actorState" where
  "presence_recorded prev e = prev\<lparr>as_presence := ev_presence e, hasPresence := True\<rparr>"

definition handlePresenceChange ::
  "'w nats \<Rightarrow> event \<Rightarrow> 'w repository \<Rightarrow> go_error option \<times> 'w repository" where
  "handlePresenceChange N e r =
     (let (prev, _, r1) = getActorState N (ev_actor e) r in
      if presence_unchanged prev e then (None, r1)
      else
        (case publish N (presenceSubject (ev_actor e)) e r1 of
           (Inl err, r2) \<Rightarrow> (Some (Wrapped (''jetstream: write presence change event '' @ ev_ID e) err), r2)
         | (Inr _, r2) \<Rightarrow>
             let st = presence_recorded prev e;
                 (_, r3) = persistActorState N (ev_actor e) st (setActorState (ev_actor e) st r2)
             in (None, r3)))"

text \<open>The \<open>switch\<close> of \<open>Write\<close>, after the raw message.\<close>

definition write_change ::
  "'w nats \<Rightarrow> event \<Rightarrow> 'w repository \<Rightarrow> go_error option \<times> 'w repository" where
  "write_change N e r =
     (if ev_Type e = EventTypeZone then handleZoneChange N e r
      else if ev_Type e = EventTypePresence then handlePresenceChange N e r
      else if ev_Type e = EventTypeCommand then
        (case publish N (commandSubject (ev_actor e)) e r of
           (Inl err, r') \<Rightarrow> (Some (Wrapped (''jetstream: write command event '' @ ev_ID e) err), r')
         | (Inr _, r') \<Rightarrow> (None, r'))
      else (None, r))"

definition Write :: "'w nats \<Rightarrow> event \<Rightarrow> 'w repository \<Rightarrow> string result \<times> 'w repository" where
  "Write N e r =
     (case publish N (rawSubject (ev_actor e)) e r of
        (Inl err, r1) \<Rightarrow> (Inl (Wrapped (''jetstream: write raw event '' @ ev_ID e) err), r1)
      | (Inr rawOffset, r1) \<Rightarrow>
          (case write_change N e r1 of
             (Some err, r2) \<Rightarrow> (Inl err, r2)
           | (None, r2) \<Rightarrow> (Inr rawOffset, r2)))"

end
