(* ===== verification/ChangeLog.thy ===== *)
theory ChangeLog
  imports Repository
begin

text \<open>
  What the write path promises. \<open>changes\<close> is the specification of change detection for one
  actor and \<open>store_step\<close> the specification of the whole store: the messages one event adds
  and the new state of its actor. On a reliable NATS, \<open>Write\<close> implements \<open>store_step\<close>
  (lemma \<open>Write_store\<close>), whatever part of the state is in the cache. The two detectors
  are interpretations of \<open>change_detector\<close>, whose lemmas give the properties of the log.
\<close>

section \<open>The abstract store\<close>

definition changes :: "actorState \<Rightarrow> event \<Rightarrow> event list \<times> actorState" where
  "changes s e =
     (if ev_Type e = EventTypeZone then
        (if zone_unchanged s e then ([], s) else ([e], zone_recorded s e))
      else if ev_Type e = EventTypePresence then
        (if presence_unchanged s e then ([], s) else ([e], presence_recorded s e))
      else if ev_Type e = EventTypeCommand then ([e], s)
      else ([], s))"

definition change_subject :: "event \<Rightarrow> string" where
  "change_subject e =
     (if ev_Type e = EventTypeZone then zoneSubject (ev_actor e)
      else if ev_Type e = EventTypePresence then presenceSubject (ev_actor e)
      else commandSubject (ev_actor e))"

definition store_step ::
  "(string \<Rightarrow> actorState) \<Rightarrow> event \<Rightarrow> (string \<times> event) list \<times> (string \<Rightarrow> actorState)" where
  "store_step \<sigma> e =
     (let (out, s) = changes (\<sigma> (ev_actor e)) e
      in ((rawSubject (ev_actor e), e) # map (\<lambda>x. (change_subject x, x)) out, \<sigma>(ev_actor e := s)))"

section \<open>zonesEqual\<close>

lemma repo_zones_outer_iff [simp]: "repo_zones_outer a b \<longleftrightarrow> set a \<subseteq> set b"
  by (induction a) auto

lemma repo_zonesEqual_iff: "repo_zonesEqual a b \<longleftrightarrow> length a = length b \<and> set a \<subseteq> set b"
  by (simp add: repo_zonesEqual_def)

lemma repo_zonesEqual_refl [simp]: "repo_zonesEqual a a"
  by (simp add: repo_zonesEqual_iff)

section \<open>The detectors\<close>

abbreviation is_zone :: "event \<Rightarrow> bool" where
  "is_zone e \<equiv> ev_Type e = EventTypeZone"

abbreviation is_presence :: "event \<Rightarrow> bool" where
  "is_presence e \<equiv> ev_Type e = EventTypePresence"

abbreviation is_command :: "event \<Rightarrow> bool" where
  "is_command e \<equiv> ev_Type e = EventTypeCommand"

definition same_zone :: "event \<Rightarrow> event \<Rightarrow> bool" where
  "same_zone e f =
     (repo_zonesEqual (ev_zones e) (ev_zones f)
      \<and> map_get (actor_Metadata (ev_Actor e)) ''locationType'' = map_get (actor_Metadata (ev_Actor f)) ''locationType''
      \<and> map_get (actor_Metadata (ev_Actor e)) ''movementStatus'' = map_get (actor_Metadata (ev_Actor f)) ''movementStatus'')"

definition same_presence :: "event \<Rightarrow> event \<Rightarrow> bool" where
  "same_presence e f = (ev_presence e = ev_presence f)"

lemma zone_unchanged_recorded [simp]: "zone_unchanged (zone_recorded s e) f \<longleftrightarrow> same_zone e f"
  by (simp add: zone_unchanged_def zone_recorded_def same_zone_def)

lemma zone_unchanged_presence [simp]: "zone_unchanged (presence_recorded s e) f \<longleftrightarrow> zone_unchanged s f"
  by (simp add: zone_unchanged_def presence_recorded_def)

lemma presence_unchanged_recorded [simp]: "presence_unchanged (presence_recorded s e) f \<longleftrightarrow> same_presence e f"
  by (simp add: presence_unchanged_def presence_recorded_def same_presence_def)

lemma presence_unchanged_zone [simp]: "presence_unchanged (zone_recorded s e) f \<longleftrightarrow> presence_unchanged s f"
  by (simp add: presence_unchanged_def zone_recorded_def)

lemma zero_never_unchanged [simp]:
  "\<not> zone_unchanged zero_actorState e" "\<not> presence_unchanged zero_actorState e"
  by (simp_all add: zone_unchanged_def presence_unchanged_def zero_actorState_def)

interpretation zone_detector: change_detector changes is_zone zone_unchanged same_zone
  by unfold_locales (auto simp: changes_def same_zone_def)

interpretation presence_detector: change_detector changes is_presence presence_unchanged same_presence
  by unfold_locales (auto simp: changes_def same_presence_def)

lemma zero_knows_nothing [simp]:
  "zone_detector.knows zero_actorState None" "presence_detector.knows zero_actorState None"
  by (simp_all add: zone_detector.knows_def presence_detector.knows_def)

lemma run_changes_commands: "filter is_command (fst (run changes s es)) = filter is_command es"
  by (induction es arbitrary: s) (auto simp: changes_def case_prod_beta)

section \<open>One actor's share of the store\<close>

abbreviation of_actor :: "string \<Rightarrow> event list \<Rightarrow> event list" where
  "of_actor a es \<equiv> filter (\<lambda>e. ev_actor e = a) es"

abbreviation on_subject :: "string \<Rightarrow> (string \<times> 'm) list \<Rightarrow> 'm list" where
  "on_subject subj ms \<equiv> map snd (filter (\<lambda>m. fst m = subj) ms)"

lemma fst_store_step [simp]:
  "fst (store_step \<sigma> e) = (rawSubject (ev_actor e), e)
     # map (\<lambda>x. (change_subject x, x)) (fst (changes (\<sigma> (ev_actor e)) e))"
  by (simp add: store_step_def case_prod_beta)

lemma snd_store_step [simp]:
  "snd (store_step \<sigma> e) = \<sigma>(ev_actor e := snd (changes (\<sigma> (ev_actor e)) e))"
  by (simp add: store_step_def case_prod_beta)

lemma store_state:
  "snd (run store_step \<sigma> es) a = snd (run changes (\<sigma> a) (of_actor a es))"
  by (induction es arbitrary: \<sigma>) (auto simp: case_prod_beta)

lemma store_raw:
  "on_subject (rawSubject a) (fst (run store_step \<sigma> es)) = of_actor a es"
proof (induction es arbitrary: \<sigma>)
  case (Cons e es)
  have "filter (\<lambda>m. fst m = rawSubject a) (map (\<lambda>x. (change_subject x, x)) xs) = []" for xs :: "event list"
    by (auto simp: filter_empty_conv change_subject_def)
  then show ?case by (simp add: case_prod_beta Cons)
qed simp

lemma changes_sub: "set (fst (changes s e)) \<subseteq> {e}"
  by (auto simp: changes_def split: if_splits)

text \<open>The messages on a change subject, for a kind of event \<open>P\<close> with that subject.\<close>

lemma store_subject:
  assumes "\<And>e. e \<in> set es \<Longrightarrow> (change_subject e = subj \<and> ev_Type e \<in> T) \<longleftrightarrow> (ev_actor e = a \<and> P e)"
    and "\<And>s e. e \<in> set es \<Longrightarrow> ev_Type e \<notin> T \<Longrightarrow> fst (changes s e) = []"
    and "\<And>b. subj \<noteq> rawSubject b"
  shows "on_subject subj (fst (run store_step \<sigma> es)) = filter P (fst (run changes (\<sigma> a) (of_actor a es)))"
  using assms(1,2)
proof (induction es arbitrary: \<sigma>)
  case (Cons e es)
  have raw: "rawSubject (ev_actor e) \<noteq> subj" using assms(3) by metis
  have IH: "on_subject subj (fst (run store_step \<sigma>' es)) = filter P (fst (run changes (\<sigma>' a) (of_actor a es)))"
    for \<sigma>' using Cons by simp
  have "map snd (filter (\<lambda>m. fst m = subj) (map (\<lambda>x. (change_subject x, x)) (fst (changes s e))))
      = (if ev_actor e = a then filter P (fst (changes s e)) else [])" for s
  proof (cases "ev_Type e \<in> T")
    case True
    with Cons.prems(1) [of e] have "change_subject e = subj \<longleftrightarrow> ev_actor e = a \<and> P e" by simp
    then show ?thesis
      by (auto simp: changes_def)
  next
    case False
    with Cons.prems(2) show ?thesis by simp
  qed
  then show ?case
    using IH by (auto simp: case_prod_beta raw)
qed simp

lemma store_zone:
  "on_subject (zoneSubject a) (fst (run store_step \<sigma> es)) = filter is_zone (fst (run changes (\<sigma> a) (of_actor a es)))"
  by (rule store_subject [where T = "{EventTypeZone, EventTypePresence, EventTypeCommand}"])
    (auto simp: change_subject_def changes_def)

lemma store_presence:
  "on_subject (presenceSubject a) (fst (run store_step \<sigma> es))
     = filter is_presence (fst (run changes (\<sigma> a) (of_actor a es)))"
  by (rule store_subject [where T = "{EventTypeZone, EventTypePresence, EventTypeCommand}"])
    (auto simp: change_subject_def changes_def)

lemma store_command:
  "on_subject (commandSubject a) (fst (run store_step \<sigma> es)) = filter is_command (of_actor a es)"
proof -
  have "on_subject (commandSubject a) (fst (run store_step \<sigma> es))
      = filter is_command (fst (run changes (\<sigma> a) (of_actor a es)))"
    by (rule store_subject [where T = "{EventTypeZone, EventTypePresence, EventTypeCommand}"])
      (auto simp: change_subject_def changes_def)
  then show ?thesis by (simp add: run_changes_commands)
qed

section \<open>The state in the KV bucket\<close>

definition kvas_ok :: "kvActorState \<Rightarrow> bool" where
  "kvas_ok v = (list_all valid_utf8 (kv_Zones v) \<and> valid_utf8 (kv_LocationType v)
     \<and> valid_utf8 (kv_MovementStatus v))"

interpretation kvas_codec: json_codec enc_kvas "dec_object dec_kvas zero_kvas" kvas_ok
proof unfold_locales
  fix v assume "kvas_ok v"
  then show "\<exists>j. enc_kvas v = Inr j \<and> dec_object dec_kvas zero_kvas j = Inr v"
    by (cases v) (simp add: enc_kvas_def dec_kvas_def kvas_ok_def image_Un)
qed (auto simp: enc_kvas_def)

lemma unmarshal_enc_kvas: "kvas_ok v \<Longrightarrow> enc_kvas v = Inr j \<Longrightarrow> unmarshal_kvas (Payload j) = Inr v"
  using kvas_codec.dec_enc by (simp add: unmarshal_kvas_def)

lemma actorState_of_kv_of [simp]: "actorState_of_kv (kv_of_actorState s) = s"
  by (cases s) (simp add: actorState_of_kv_def kv_of_actorState_def)

text \<open>The state the bucket holds for an actor: nothing there is the zero state.\<close>

definition stored :: "payload option \<Rightarrow> actorState" where
  "stored v = (case v of None \<Rightarrow> zero_actorState
     | Some p \<Rightarrow> (case unmarshal_kvas p of Inl _ \<Rightarrow> zero_actorState | Inr s \<Rightarrow> actorState_of_kv s))"

definition actor_state_ok :: "actorState \<Rightarrow> bool" where
  "actor_state_ok s = kvas_ok (kv_of_actorState s)"

lemma actor_state_ok_zero [simp]: "actor_state_ok zero_actorState"
  by (simp add: actor_state_ok_def kvas_ok_def kv_of_actorState_def zero_actorState_def)

text \<open>
  The invariant of the repository for the actors \<open>A\<close>: what the bucket holds can be read
  and written again, and a cached state is the one in the bucket.
\<close>

definition coherent ::
  "('w \<Rightarrow> string \<Rightarrow> payload option) \<Rightarrow> string set \<Rightarrow> 'w repository \<Rightarrow> bool" where
  "coherent kv A r \<longleftrightarrow> (\<forall>a \<in> A.
     (\<forall>s. cache r a = Some s \<longrightarrow> stored (kv (world r) a) = s)
     \<and> (\<forall>p. kv (world r) a = Some p \<longrightarrow> \<not> isl (unmarshal_kvas p))
     \<and> actor_state_ok (stored (kv (world r) a)))"

definition store_state_of ::
  "('w \<Rightarrow> string \<Rightarrow> payload option) \<Rightarrow> 'w repository \<Rightarrow> string \<Rightarrow> actorState" where
  "store_state_of kv r a = stored (kv (world r) a)"

section \<open>A reliable NATS\<close>

text \<open>
  What \<open>Write\<close> relies on, for the actors \<open>A\<close> whose ids NATS accepts: a publish appends one
  message to the stream and acknowledges its position, counted from 1; the bucket is a
  map, and reading a key that was never written reports \<open>ErrKeyNotFound\<close>.
\<close>

definition reliable ::
  "'w nats \<Rightarrow> ('w \<Rightarrow> (string \<times> payload) list) \<Rightarrow> ('w \<Rightarrow> string \<Rightarrow> payload option) \<Rightarrow> string set \<Rightarrow> bool" where
  "reliable N log kv A \<longleftrightarrow>
     (\<forall>a \<in> A. \<forall>subj \<in> {rawSubject a, zoneSubject a, presenceSubject a, commandSubject a}. \<forall>data w.
        \<exists>w'. js_PublishMsg N subj data w = (Inr (of_nat (length (log w'))), w')
          \<and> log w' = log w @ [(subj, data)] \<and> kv w' = kv w)
     \<and> (\<forall>a \<in> A. \<forall>w. kv_Get N a w = (case kv w a of None \<Rightarrow> Inl ErrKeyNotFound | Some v \<Rightarrow> Inr v))
     \<and> (\<forall>a \<in> A. \<forall>v w. \<exists>rev w'. kv_Put N a v w = (Inr rev, w') \<and> log w' = log w \<and> kv w' = (kv w)(a \<mapsto> v))"

definition payload_of :: "event \<Rightarrow> payload" where
  "payload_of e = (case marshal e of Inl _ \<Rightarrow> Malformed | Inr p \<Rightarrow> p)"

lemma marshal_payload_of: "event_wire_ok e \<Longrightarrow> marshal e = Inr (payload_of e)"
  using message_codec.enc_total [of e] by (auto simp: payload_of_def)

lemma unmarshal_payload_of [simp]: "event_wire_ok e \<Longrightarrow> unmarshal (payload_of e) = Inr e"
  by (rule message_codec.dec_enc) (simp_all add: marshal_payload_of)

definition messages :: "(string \<times> event) list \<Rightarrow> (string \<times> payload) list" where
  "messages = map (\<lambda>(subj, e). (subj, payload_of e))"

lemma messages_simps [simp]: "messages [] = []" "messages ((subj, e) # ms) = (subj, payload_of e) # messages ms"
  "messages (ms @ ns) = messages ms @ messages ns"
  by (simp_all add: messages_def)

lemma on_subject_messages: "on_subject subj (messages ms) = map payload_of (on_subject subj ms)"
  by (induction ms) auto

section \<open>Write implements store_step\<close>

lemma publish_reliable:
  assumes "reliable N log kv A" and "a \<in> A" and "event_wire_ok e"
    and "subj \<in> {rawSubject a, zoneSubject a, presenceSubject a, commandSubject a}"
  obtains w' where
    "publish N subj e r = (Inr (encodeOffset (of_nat (length (log w')))), r\<lparr>world := w'\<rparr>)"
    "log w' = log (world r) @ [(subj, payload_of e)]" "kv w' = kv (world r)"
proof -
  from assms(1,2,4) obtain w' where
    "js_PublishMsg N subj (payload_of e) (world r) = (Inr (of_nat (length (log w'))), w')"
    "log w' = log (world r) @ [(subj, payload_of e)]" "kv w' = kv (world r)"
    unfolding reliable_def by meson
  with that marshal_payload_of [OF assms(3)] show thesis by (simp add: publish_def)
qed

lemma getActorState_reliable:
  assumes "reliable N log kv A" and "a \<in> A" and "coherent kv A r"
  obtains r' where "getActorState N a r = (store_state_of kv r a, None, r')"
    "world r' = world r" "coherent kv A r'"
proof (cases "cache r a")
  case (Some s)
  with assms that show thesis by (simp add: getActorState_def coherent_def store_state_of_def)
next
  case None
  from assms(1,2) have get: "kv_Get N a (world r) = (case kv (world r) a of None \<Rightarrow> Inl ErrKeyNotFound | Some v \<Rightarrow> Inr v)"
    unfolding reliable_def by blast
  show thesis
  proof (cases "kv (world r) a")
    case None
    with \<open>cache r a = None\<close> get assms(3) that [of r] show thesis
      by (simp add: getActorState_def store_state_of_def stored_def)
  next
    case (Some p)
    with assms(2,3) obtain v where v: "unmarshal_kvas p = Inr v"
      by (cases "unmarshal_kvas p") (auto simp: coherent_def)
    let ?r = "setActorState a (actorState_of_kv v) r"
    have "coherent kv A ?r"
      using assms(3) Some v by (auto simp: coherent_def setActorState_def stored_def)
    with Some v get \<open>cache r a = None\<close> that [of ?r] show thesis
      by (simp add: getActorState_def store_state_of_def stored_def setActorState_def)
  qed
qed

lemma persist_reliable:
  assumes "reliable N log kv A" and "a \<in> A" and "coherent kv A r" and "actor_state_ok s"
  obtains r' where "persistActorState N a s (setActorState a s r) = (None, r')"
    "log (world r') = log (world r)" "store_state_of kv r' = (store_state_of kv r)(a := s)"
    "coherent kv A r'"
proof -
  obtain j where j: "enc_kvas (kv_of_actorState s) = Inr j" by (simp add: enc_kvas_def)
  with assms(4) have dec: "unmarshal_kvas (Payload j) = Inr (kv_of_actorState s)"
    by (simp add: actor_state_ok_def unmarshal_enc_kvas)
  then have stored: "stored (Some (Payload j)) = s" by (simp add: stored_def)
  from assms(1,2) obtain rev w' where put: "kv_Put N a (Payload j) (world r) = (Inr rev, w')"
    "log w' = log (world r)" "kv w' = (kv (world r))(a \<mapsto> Payload j)"
    unfolding reliable_def by meson
  let ?r = "(setActorState a s r)\<lparr>world := w'\<rparr>"
  have "coherent kv A ?r"
    using assms(3,4) put(3) dec stored by (auto simp: coherent_def setActorState_def)
  moreover have "store_state_of kv ?r = (store_state_of kv r)(a := s)"
    using put(3) stored by (auto simp: store_state_of_def setActorState_def)
  ultimately show thesis
    using that [of ?r] put j by (simp add: persistActorState_def setActorState_def)
qed

lemma valid_map_get:
  "valid_map m \<Longrightarrow> valid_utf8 (map_get m k)"
  by (auto simp: valid_map_def map_get_def dest: fmpredD split: option.split)

lemma recorded_ok:
  assumes "event_wire_ok e" and "actor_state_ok s"
  shows "actor_state_ok (zone_recorded s e)" and "actor_state_ok (presence_recorded s e)"
proof -
  from assms(1) have "list_all valid_utf8 (ev_zones e)" and "valid_map (actor_Metadata (ev_Actor e))"
    by (auto simp: event_wire_ok_def wire_ok_defs toWireEvent_def toWireState_def ev_zones_def
        split: option.splits)
  with assms(2) show "actor_state_ok (zone_recorded s e)" and "actor_state_ok (presence_recorded s e)"
    by (auto simp: actor_state_ok_def kvas_ok_def kv_of_actorState_def zone_recorded_def
        presence_recorded_def valid_map_get)
qed

lemma store_state_world: "world r' = world r \<Longrightarrow> store_state_of kv r' = store_state_of kv r"
  by (auto simp: store_state_of_def)

lemma coherent_world:
  "coherent kv A r \<Longrightarrow> kv w = kv (world r) \<Longrightarrow> coherent kv A (r\<lparr>world := w\<rparr>)"
  by (simp add: coherent_def)

text \<open>The common end of both handlers: publish, then record and persist the new state.\<close>

lemma publish_and_record:
  assumes "reliable N log kv A" and "ev_actor e \<in> A" and "event_wire_ok e" and "coherent kv A r"
    and "subj \<in> {rawSubject (ev_actor e), zoneSubject (ev_actor e), presenceSubject (ev_actor e),
      commandSubject (ev_actor e)}"
    and "actor_state_ok s"
  obtains off r2 r3 where "publish N subj e r = (Inr off, r2)"
    "persistActorState N (ev_actor e) s (setActorState (ev_actor e) s r2) = (None, r3)"
    "log (world r3) = log (world r) @ [(subj, payload_of e)]"
    "store_state_of kv r3 = (store_state_of kv r)(ev_actor e := s)" "coherent kv A r3"
proof -
  from publish_reliable [OF assms(1,2,3,5), of r] obtain w' where w':
    "publish N subj e r = (Inr (encodeOffset (of_nat (length (log w')))), r\<lparr>world := w'\<rparr>)"
    "log w' = log (world r) @ [(subj, payload_of e)]" "kv w' = kv (world r)" by blast
  from persist_reliable [OF assms(1,2) coherent_world [OF assms(4) w'(3)] assms(6)] obtain r3 where r3:
    "persistActorState N (ev_actor e) s (setActorState (ev_actor e) s (r\<lparr>world := w'\<rparr>)) = (None, r3)"
    "log (world r3) = log (world (r\<lparr>world := w'\<rparr>))"
    "store_state_of kv r3 = (store_state_of kv (r\<lparr>world := w'\<rparr>))(ev_actor e := s)" "coherent kv A r3"
    by blast
  have "store_state_of kv (r\<lparr>world := w'\<rparr>) = store_state_of kv r"
    using w'(3) by (auto simp: store_state_of_def)
  with that [OF w'(1) r3(1)] w'(2) r3 show thesis by simp
qed

lemma handleZoneChange_store:
  assumes "reliable N log kv A" and "ev_actor e \<in> A" and "event_wire_ok e" and "coherent kv A r"
    and "is_zone e"
  obtains r' where "handleZoneChange N e r = (None, r')"
    "log (world r') = log (world r)
       @ messages (map (\<lambda>x. (change_subject x, x)) (fst (changes (store_state_of kv r (ev_actor e)) e)))"
    "store_state_of kv r' = (store_state_of kv r)
       (ev_actor e := snd (changes (store_state_of kv r (ev_actor e)) e))"
    "coherent kv A r'"
proof -
  let ?a = "ev_actor e" and ?s = "store_state_of kv r (ev_actor e)"
  from getActorState_reliable [OF assms(1,2,4)] obtain r1 where r1:
    "getActorState N ?a r = (?s, None, r1)" "world r1 = world r" "coherent kv A r1" by blast
  have s_ok: "actor_state_ok ?s" using assms(2,4) by (simp add: coherent_def store_state_of_def)
  show thesis
  proof (cases "zone_unchanged ?s e")
    case True
    then show thesis
      using that [of r1] r1 store_state_world [OF r1(2), of kv] assms(5)
      by (simp add: handleZoneChange_def changes_def)
  next
    case False
    from publish_and_record [OF assms(1,2,3) r1(3) _ recorded_ok(1) [OF assms(3) s_ok],
        of "zoneSubject ?a"] obtain off r2 r3 where
      "publish N (zoneSubject ?a) e r1 = (Inr off, r2)"
      "persistActorState N ?a (zone_recorded ?s e) (setActorState ?a (zone_recorded ?s e) r2) = (None, r3)"
      "log (world r3) = log (world r1) @ [(zoneSubject ?a, payload_of e)]"
      "store_state_of kv r3 = (store_state_of kv r1)(?a := zone_recorded ?s e)" "coherent kv A r3"
      by blast
    with False show thesis
      using that [of r3] r1 store_state_world [OF r1(2), of kv] assms(5)
      by (simp add: handleZoneChange_def changes_def change_subject_def Let_def)
  qed
qed

lemma handlePresenceChange_store:
  assumes "reliable N log kv A" and "ev_actor e \<in> A" and "event_wire_ok e" and "coherent kv A r"
    and "is_presence e"
  obtains r' where "handlePresenceChange N e r = (None, r')"
    "log (world r') = log (world r)
       @ messages (map (\<lambda>x. (change_subject x, x)) (fst (changes (store_state_of kv r (ev_actor e)) e)))"
    "store_state_of kv r' = (store_state_of kv r)
       (ev_actor e := snd (changes (store_state_of kv r (ev_actor e)) e))"
    "coherent kv A r'"
proof -
  let ?a = "ev_actor e" and ?s = "store_state_of kv r (ev_actor e)"
  from getActorState_reliable [OF assms(1,2,4)] obtain r1 where r1:
    "getActorState N ?a r = (?s, None, r1)" "world r1 = world r" "coherent kv A r1" by blast
  have s_ok: "actor_state_ok ?s" using assms(2,4) by (simp add: coherent_def store_state_of_def)
  show thesis
  proof (cases "presence_unchanged ?s e")
    case True
    then show thesis
      using that [of r1] r1 store_state_world [OF r1(2), of kv] assms(5)
      by (simp add: handlePresenceChange_def changes_def)
  next
    case False
    from publish_and_record [OF assms(1,2,3) r1(3) _ recorded_ok(2) [OF assms(3) s_ok],
        of "presenceSubject ?a"] obtain off r2 r3 where
      "publish N (presenceSubject ?a) e r1 = (Inr off, r2)"
      "persistActorState N ?a (presence_recorded ?s e) (setActorState ?a (presence_recorded ?s e) r2) = (None, r3)"
      "log (world r3) = log (world r1) @ [(presenceSubject ?a, payload_of e)]"
      "store_state_of kv r3 = (store_state_of kv r1)(?a := presence_recorded ?s e)" "coherent kv A r3"
      by blast
    with False show thesis
      using that [of r3] r1 store_state_world [OF r1(2), of kv] assms(5)
      by (simp add: handlePresenceChange_def changes_def change_subject_def Let_def)
  qed
qed

lemma write_change_store:
  assumes "reliable N log kv A" and "ev_actor e \<in> A" and "event_wire_ok e" and "coherent kv A r"
  obtains r' where "write_change N e r = (None, r')"
    "log (world r') = log (world r)
       @ messages (map (\<lambda>x. (change_subject x, x)) (fst (changes (store_state_of kv r (ev_actor e)) e)))"
    "store_state_of kv r' = (store_state_of kv r)
       (ev_actor e := snd (changes (store_state_of kv r (ev_actor e)) e))"
    "coherent kv A r'"
proof (cases "is_zone e")
  case True
  then have eq: "write_change N e r = handleZoneChange N e r" by (simp add: write_change_def)
  show thesis
    by (rule handleZoneChange_store [OF assms True]) (rule that, simp_all only: eq)
next
  case zone: False
  show thesis
  proof (cases "is_presence e")
    case True
    with zone have eq: "write_change N e r = handlePresenceChange N e r" by (simp add: write_change_def)
    show thesis
      by (rule handlePresenceChange_store [OF assms True]) (rule that, simp_all only: eq)
  next
    case presence: False
    from publish_reliable [OF assms(1,2,3), of "commandSubject (ev_actor e)" r] obtain w' where w':
      "publish N (commandSubject (ev_actor e)) e r = (Inr (encodeOffset (of_nat (length (log w')))), r\<lparr>world := w'\<rparr>)"
      "log w' = log (world r) @ [(commandSubject (ev_actor e), payload_of e)]" "kv w' = kv (world r)"
      by blast
    have "store_state_of kv (r\<lparr>world := w'\<rparr>) = store_state_of kv r"
      using w'(3) by (auto simp: store_state_of_def)
    with w' zone presence assms(4) coherent_world [OF assms(4) w'(3)] show thesis
      using that [of r] that [of "r\<lparr>world := w'\<rparr>"]
      by (cases "is_command e") (simp_all add: write_change_def changes_def change_subject_def)
  qed
qed

lemma Write_store:
  assumes "reliable N log kv A" and "ev_actor e \<in> A" and "event_wire_ok e" and "coherent kv A r"
  obtains r' where "Write N e r = (Inr (encodeOffset (of_nat (Suc (length (log (world r)))))), r')"
    "log (world r') = log (world r) @ messages (fst (store_step (store_state_of kv r) e))"
    "store_state_of kv r' = snd (store_step (store_state_of kv r) e)"
    "coherent kv A r'"
proof -
  from publish_reliable [OF assms(1,2,3), of "rawSubject (ev_actor e)" r] obtain w' where w':
    "publish N (rawSubject (ev_actor e)) e r = (Inr (encodeOffset (of_nat (length (log w')))), r\<lparr>world := w'\<rparr>)"
    "log w' = log (world r) @ [(rawSubject (ev_actor e), payload_of e)]" "kv w' = kv (world r)"
    by blast
  have same: "store_state_of kv (r\<lparr>world := w'\<rparr>) = store_state_of kv r"
    using w'(3) by (auto simp: store_state_of_def)
  from write_change_store [OF assms(1,2,3) coherent_world [OF assms(4) w'(3)]] obtain r' where
    "write_change N e (r\<lparr>world := w'\<rparr>) = (None, r')"
    "log (world r') = log (world (r\<lparr>world := w'\<rparr>))
       @ messages (map (\<lambda>x. (change_subject x, x)) (fst (changes (store_state_of kv r (ev_actor e)) e)))"
    "store_state_of kv r' = (store_state_of kv r)
       (ev_actor e := snd (changes (store_state_of kv r (ev_actor e)) e))"
    "coherent kv A r'"
    unfolding same by blast
  with w' that [of r'] show thesis by (simp add: Write_def)
qed

section \<open>Runs of Write\<close>

text \<open>The repository as a machine: it consumes events and answers each with a result.\<close>

definition write_step :: "'w nats \<Rightarrow> 'w repository \<Rightarrow> event \<Rightarrow> string result list \<times> 'w repository" where
  "write_step N r e = (let (res, r') = Write N e r in ([res], r'))"

definition events_ok :: "string set \<Rightarrow> event list \<Rightarrow> bool" where
  "events_ok A es = list_all (\<lambda>e. ev_actor e \<in> A \<and> event_wire_ok e) es"

lemma writes_store:
  assumes "reliable N log kv A" and "events_ok A es" and "coherent kv A r"
  shows "log (world (snd (run (write_step N) r es)))
       = log (world r) @ messages (fst (run store_step (store_state_of kv r) es))"
    and "store_state_of kv (snd (run (write_step N) r es)) = snd (run store_step (store_state_of kv r) es)"
    and "coherent kv A (snd (run (write_step N) r es))"
    and "list_all (\<lambda>res. \<not> isl res) (fst (run (write_step N) r es))"
proof -
  have "log (world (snd (run (write_step N) r es)))
       = log (world r) @ messages (fst (run store_step (store_state_of kv r) es))
    \<and> store_state_of kv (snd (run (write_step N) r es)) = snd (run store_step (store_state_of kv r) es)
    \<and> coherent kv A (snd (run (write_step N) r es))
    \<and> list_all (\<lambda>res. \<not> isl res) (fst (run (write_step N) r es))"
    using assms(2,3)
  proof (induction es arbitrary: r)
    case (Cons e es)
    then have "ev_actor e \<in> A" and "event_wire_ok e" and es: "events_ok A es"
      by (simp_all add: events_ok_def)
    from Write_store [OF assms(1) this(1,2) Cons.prems(2)] obtain r' where r':
      "Write N e r = (Inr (encodeOffset (of_nat (Suc (length (log (world r)))))), r')"
      "log (world r') = log (world r) @ messages (fst (store_step (store_state_of kv r) e))"
      "store_state_of kv r' = snd (store_step (store_state_of kv r) e)"
      "coherent kv A r'" .
    have step: "write_step N r e = ([Inr (encodeOffset (of_nat (Suc (length (log (world r))))))], r')"
      using r'(1) by (simp add: write_step_def)
    from Cons.IH [OF es r'(4)] show ?case
      by (simp add: step case_prod_beta r'(2,3) del: fst_store_step snd_store_step)
  qed simp
  then show "log (world (snd (run (write_step N) r es)))
       = log (world r) @ messages (fst (run store_step (store_state_of kv r) es))"
    and "store_state_of kv (snd (run (write_step N) r es)) = snd (run store_step (store_state_of kv r) es)"
    and "coherent kv A (snd (run (write_step N) r es))"
    and "list_all (\<lambda>res. \<not> isl res) (fst (run (write_step N) r es))"
    by blast+
qed

end
