(* ===== verification/StoreProps.thy ===== *)
theory StoreProps
  imports ChangeLog
begin

text \<open>
  The properties of the write path: what the stream holds after any number of writes on a
  reliable NATS, what a restart changes (nothing), and what holds when NATS fails.
\<close>

section \<open>A NATS in memory\<close>

text \<open>The concrete instance for the witnesses: a stream and a bucket.\<close>

type_synonym mem = "(string \<times> payload) list \<times> (string \<Rightarrow> payload option)"

definition mem_nats :: "mem nats" where
  "mem_nats = \<lparr>nc_JetStream = (\<lambda>w. None),
     js_AddStream = (\<lambda>c w. (Some ErrStreamNameAlreadyInUse, w)),
     js_CreateKeyValue = (\<lambda>c w. (Some ErrStreamNameAlreadyInUse, w)),
     js_KeyValue = (\<lambda>b w. (None, w)),
     js_PublishMsg = (\<lambda>subj data w. (Inr (of_nat (Suc (length (fst w)))), (fst w @ [(subj, data)], snd w))),
     kv_Get = (\<lambda>k w. case snd w k of None \<Rightarrow> Inl ErrKeyNotFound | Some v \<Rightarrow> Inr v),
     kv_Put = (\<lambda>k v w. (Inr 1, (fst w, (snd w)(k \<mapsto> v)))),
     JSErrCodeStreamNameInUse = 1\<rparr>"

lemma mem_nats_reliable [simp]: "reliable mem_nats fst snd A"
  by (simp add: reliable_def mem_nats_def)

definition fresh :: "mem repository" where
  "fresh = \<lparr>cache = (\<lambda>_. None), world = ([], \<lambda>_. None)\<rparr>"

lemma stored_None [simp]: "stored None = zero_actorState"
  by (simp add: stored_def)

lemma fresh_coherent [simp]: "coherent snd A fresh"
  by (simp add: coherent_def fresh_def)

lemma sample_actor [simp]: "ev_actor sample_event = ''tag''"
  by (simp add: sample_event_def)

lemma sample_type [simp]: "ev_Type sample_event = EventTypeZone"
  by (simp add: sample_event_def)

lemma sample_events_ok [simp]: "events_ok {''tag''} [sample_event]"
  by (simp add: events_ok_def)

section \<open>Histories that start empty\<close>

text \<open>Nothing has been published and nothing recorded for any actor.\<close>

definition starts_empty ::
  "('w \<Rightarrow> (string \<times> payload) list) \<Rightarrow> ('w \<Rightarrow> string \<Rightarrow> payload option) \<Rightarrow> 'w repository \<Rightarrow> bool" where
  "starts_empty log kv r \<longleftrightarrow> log (world r) = [] \<and> kv (world r) = (\<lambda>_. None) \<and> cache r = (\<lambda>_. None)"

lemma starts_empty_fresh [simp]: "starts_empty fst snd fresh"
  by (simp add: starts_empty_def fresh_def)

lemma starts_empty_coherent: "starts_empty log kv r \<Longrightarrow> coherent kv A r"
  by (simp add: starts_empty_def coherent_def)

lemma starts_empty_state: "starts_empty log kv r \<Longrightarrow> store_state_of kv r a = zero_actorState"
  by (simp add: starts_empty_def store_state_of_def)

lemma last_map_payload:
  "last_such P (\<lambda>e. e) xs = Some q \<Longrightarrow> filter P xs \<noteq> [] \<and> last (filter P xs) = q"
  by (auto simp: last_such_def Let_def split: if_splits)

lemma run_changes_events: "set (fst (run changes s es)) \<subseteq> set es"
proof (induction es arbitrary: s)
  case (Cons e es)
  then show ?case using changes_sub [of s e] by (auto simp: case_prod_beta)
qed simp

text \<open>The messages on the subjects of an actor, after a run from an empty store.\<close>

lemma history_on_subject:
  assumes "reliable N log kv A" and "events_ok A es" and "starts_empty log kv r"
  shows "on_subject subj (log (world (snd (run (write_step N) r es))))
    = map payload_of (on_subject subj (fst (run store_step (\<lambda>_. zero_actorState) es)))"
proof -
  have "store_state_of kv r = (\<lambda>_. zero_actorState)"
    using starts_empty_state [OF assms(3)] by blast
  moreover have "log (world r) = []" using assms(3) by (simp add: starts_empty_def)
  ultimately show ?thesis
    using writes_store(1) [OF assms(1,2) starts_empty_coherent [OF assms(3)]]
    by (simp add: on_subject_messages)
qed

lemma changes_wire_ok:
  assumes "events_ok A es" and "e \<in> set (fst (run changes s (of_actor a es)))"
  shows "event_wire_ok e"
  using assms run_changes_events [of s "of_actor a es"] by (auto simp: events_ok_def list_all_iff)

text \<open>Two lists whose neighbours differ, mapped to their payloads.\<close>

lemma successively_payload:
  assumes "successively (\<lambda>p q. \<not> S p q) xs" and "\<And>e. e \<in> set xs \<Longrightarrow> event_wire_ok e"
  shows "successively (\<lambda>x y. \<exists>p q. unmarshal x = Inr p \<and> unmarshal y = Inr q \<and> \<not> S p q) (map payload_of xs)"
  using assms by (induction xs rule: successively.induct [of _ "\<lambda>p q. \<not> S p q"]) auto

section \<open>Properties on a reliable NATS\<close>

text \<open>
  C3: one \<open>Write\<close> implements one step of the abstract store, whether the state of the actor
  is cached or only in the bucket: the messages appended, the new stored state and the
  agreement of cache and bucket are as specified, and the offset returned is the
  position of the raw message in the stream.
\<close>

theorem Write_refines:
  assumes "reliable N log kv A" and "coherent kv A r"
    and "ev_actor e \<in> A" and "event_wire_ok e" and "Suc (length (log (world r))) < 2 ^ 64"
  shows "\<exists>off r' seq. Write N e r = (Inr off, r') \<and> decodeOffset off = Inr seq
    \<and> log (world r') ! (unat seq - 1) = (rawSubject (ev_actor e), payload_of e)
    \<and> log (world r') = log (world r) @ messages (fst (store_step (store_state_of kv r) e))
    \<and> store_state_of kv r' = snd (store_step (store_state_of kv r) e)
    \<and> coherent kv A r'"
proof -
  from Write_store [OF assms(1,3,4,2)] obtain r' where r':
    "Write N e r = (Inr (encodeOffset (of_nat (Suc (length (log (world r)))))), r')"
    "log (world r') = log (world r) @ messages (fst (store_step (store_state_of kv r) e))"
    "store_state_of kv r' = snd (store_step (store_state_of kv r) e)" "coherent kv A r'" .
  let ?seq = "of_nat (Suc (length (log (world r)))) :: uint64"
  have "unat ?seq = Suc (length (log (world r)))"
    using assms(5) by (simp add: unat_of_nat del: of_nat_Suc)
  moreover from this have "decodeOffset (encodeOffset ?seq) = Inr ?seq"
    by (intro decode_encode) (metis nat.distinct(1) unat_0)
  ultimately show ?thesis
    using r' by (intro exI [of _ "encodeOffset ?seq"] exI [of _ r'] exI [of _ ?seq])
      (simp add: nth_append del: of_nat_Suc)
qed

theorem Write_refines_witness:
  "\<exists>off r' seq. Write mem_nats sample_event fresh = (Inr off, r') \<and> decodeOffset off = Inr seq
    \<and> fst (world r') ! (unat seq - 1) = (rawSubject (ev_actor sample_event), payload_of sample_event)
    \<and> fst (world r') = fst (world fresh) @ messages (fst (store_step (store_state_of snd fresh) sample_event))
    \<and> store_state_of snd r' = snd (store_step (store_state_of snd fresh) sample_event)
    \<and> coherent snd {''tag''} r'"
  by (rule Write_refines [of mem_nats fst snd "{''tag''}" fresh sample_event]) (simp_all add: fresh_def [symmetric], simp add: fresh_def)

text \<open>
  C10: every write succeeds and the stream keeps the full history: on the raw subject of an
  actor are all its events, and on the command subject all its commands, each once and in
  the order they were written.
\<close>

theorem raw_history_complete:
  assumes "reliable N log kv A" and "coherent kv A r" and "events_ok A es"
  shows "list_all (\<lambda>res. \<not> isl res) (fst (run (write_step N) r es))
    \<and> (\<exists>new. log (world (snd (run (write_step N) r es))) = log (world r) @ new
        \<and> map unmarshal (on_subject (rawSubject a) new) = map Inr (of_actor a es)
        \<and> map unmarshal (on_subject (commandSubject a) new) = map Inr (filter is_command (of_actor a es)))"
proof -
  have dec: "map unmarshal (map payload_of xs) = map Inr xs" if "set xs \<subseteq> set es" for xs
    using that assms(3) by (auto simp: events_ok_def list_all_iff)
  let ?ms = "fst (run store_step (store_state_of kv r) es)"
  have "log (world (snd (run (write_step N) r es))) = log (world r) @ messages ?ms"
    by (rule writes_store(1) [OF assms(1,3,2)])
  moreover have "map unmarshal (on_subject (rawSubject a) (messages ?ms)) = map Inr (of_actor a es)"
    unfolding on_subject_messages store_raw by (rule dec) auto
  moreover have "map unmarshal (on_subject (commandSubject a) (messages ?ms))
      = map Inr (filter is_command (of_actor a es))"
    unfolding on_subject_messages store_command by (rule dec) auto
  ultimately show ?thesis using writes_store(4) [OF assms(1,3,2)] by blast
qed

theorem raw_history_complete_witness:
  "list_all (\<lambda>res. \<not> isl res) (fst (run (write_step mem_nats) fresh [sample_event]))
    \<and> (\<exists>new. fst (world (snd (run (write_step mem_nats) fresh [sample_event]))) = fst (world fresh) @ new
        \<and> map unmarshal (on_subject (rawSubject ''tag'') new) = map Inr (of_actor ''tag'' [sample_event])
        \<and> map unmarshal (on_subject (commandSubject ''tag'') new)
            = map Inr (filter is_command (of_actor ''tag'' [sample_event])))"
  by (rule raw_history_complete [of mem_nats fst snd "{''tag''}" fresh "[sample_event]" "''tag''"]) simp_all

text \<open>
  The last message on an actor's zone subject and on its presence subject, when the actor
  has had a zone or presence event; without one there is no message.
\<close>

lemma last_message:
  assumes "reliable N log kv A" and "events_ok A es" and "starts_empty log kv r"
    and "subj = zoneSubject a \<and> P = is_zone \<or> subj = presenceSubject a \<and> P = is_presence"
  shows "on_subject subj (log (world (snd (run (write_step N) r es))))
    = map payload_of (filter P (fst (run changes zero_actorState (of_actor a es))))"
  using assms(4) unfolding history_on_subject [OF assms(1-3)] by (auto simp only: store_zone store_presence)

lemma last_payload:
  assumes "events_ok A es" and "\<exists>q. last_such P (\<lambda>e. e) (fst (run changes s (of_actor a es))) = Some q \<and> S q e"
    and "msgs = map payload_of (filter P (fst (run changes s (of_actor a es))))"
  shows "msgs \<noteq> [] \<and> (\<exists>q \<in> set es. unmarshal (last msgs) = Inr q \<and> P q \<and> S q e)"
proof -
  let ?outs = "fst (run changes s (of_actor a es))"
  from assms(2) obtain q where q: "last_such P (\<lambda>e. e) ?outs = Some q" and S: "S q e" by blast
  from last_map_payload [OF q] have ne: "filter P ?outs \<noteq> []" and last: "last (filter P ?outs) = q" by auto
  from last_in_set [OF ne] last have "q \<in> set ?outs" and "P q" by auto
  moreover from this have "event_wire_ok q" and "q \<in> set es"
    using changes_wire_ok [OF assms(1)] run_changes_events [of s "of_actor a es"] by auto
  ultimately show ?thesis using S ne last assms(3) by (auto simp: last_map)
qed

lemma snapshot_zone:
  assumes "reliable N log kv A" and "events_ok A es" and "starts_empty log kv r"
    and "last_such is_zone (\<lambda>e. e) (of_actor a es) = Some e"
    and "msgs = on_subject (zoneSubject a) (log (world (snd (run (write_step N) r es))))"
  shows "msgs \<noteq> [] \<and> (\<exists>q \<in> set es. unmarshal (last msgs) = Inr q \<and> is_zone q \<and> same_zone q e)"
proof -
  have "\<exists>q. last_such is_zone (\<lambda>e. e) (fst (run changes zero_actorState (of_actor a es))) = Some q \<and> same_zone q e"
    using zone_detector.run_shows [OF zero_knows_nothing(1), of "of_actor a es" e] assms(4)
    by (simp add: zone_detector.last_relevant_def)
  from last_payload [OF assms(2), where S = same_zone, OF this, of msgs] last_message [OF assms(1-3), of _ a is_zone] assms(5)
  show ?thesis by simp
qed

lemma snapshot_presence:
  assumes "reliable N log kv A" and "events_ok A es" and "starts_empty log kv r"
    and "last_such is_presence (\<lambda>e. e) (of_actor a es) = Some e"
    and "msgs = on_subject (presenceSubject a) (log (world (snd (run (write_step N) r es))))"
  shows "msgs \<noteq> [] \<and> (\<exists>q \<in> set es. unmarshal (last msgs) = Inr q \<and> is_presence q \<and> same_presence q e)"
proof -
  have "\<exists>q. last_such is_presence (\<lambda>e. e) (fst (run changes zero_actorState (of_actor a es))) = Some q
      \<and> same_presence q e"
    using presence_detector.run_shows [OF zero_knows_nothing(2), of "of_actor a es" e] assms(4)
    by (simp add: presence_detector.last_relevant_def)
  from last_payload [OF assms(2), where S = same_presence, OF this, of msgs] last_message [OF assms(1-3), of _ a is_presence] assms(5)
  show ?thesis by simp
qed

lemma no_change_no_message:
  assumes "reliable N log kv A" and "events_ok A es" and "starts_empty log kv r"
    and "subj = zoneSubject a \<and> P = is_zone \<or> subj = presenceSubject a \<and> P = is_presence"
    and "last_such P (\<lambda>e. e) (of_actor a es) = None"
  shows "on_subject subj (log (world (snd (run (write_step N) r es)))) = []"
proof -
  have "filter P (of_actor a es) = []" using assms(5) by (auto simp: last_such_def Let_def split: if_splits)
  then have "filter P (fst (run changes zero_actorState (of_actor a es))) = []"
    using run_changes_events [of zero_actorState "of_actor a es"] by (auto simp: filter_empty_conv)
  with last_message [OF assms(1-4)] show ?thesis by simp
qed

text \<open>
  C4: the snapshot a new subscriber is given (the last message of each subject) is current:
  after any writes the last message on an actor's zone subject has the same zones, location
  type and movement status as its last zone event, and the last message on its presence
  subject the same presence as its last presence event.
\<close>

theorem snapshot_current:
  assumes "reliable N log kv A" and "events_ok A es" and "starts_empty log kv r"
  shows "(last_such is_zone (\<lambda>e. e) (of_actor a es) = Some e \<longrightarrow>
      (\<exists>q. unmarshal (last (on_subject (zoneSubject a) (log (world (snd (run (write_step N) r es)))))) = Inr q
         \<and> same_zone q e))
    \<and> (last_such is_presence (\<lambda>e. e) (of_actor a es) = Some e \<longrightarrow>
      (\<exists>q. unmarshal (last (on_subject (presenceSubject a) (log (world (snd (run (write_step N) r es)))))) = Inr q
         \<and> ev_presence q = ev_presence e))"
  using snapshot_zone [OF assms, of a e] snapshot_presence [OF assms, of a e]
  by (auto simp: same_presence_def)

theorem snapshot_current_witness:
  "\<exists>q. unmarshal (last (on_subject (zoneSubject ''tag'')
      (fst (world (snd (run (write_step mem_nats) fresh [sample_event])))))) = Inr q \<and> same_zone q sample_event"
  using snapshot_current [of mem_nats fst snd "{''tag''}" "[sample_event]" fresh "''tag''" sample_event]
  by simp

text \<open>
  C9: the change subjects carry changes only: on each, two neighbouring messages always
  differ in what the detector compares, and every message is one of the events written,
  in the order they were written.
\<close>

theorem changes_never_repeat:
  assumes "reliable N log kv A" and "events_ok A es" and "starts_empty log kv r"
  shows "successively (\<lambda>x y. \<exists>p q. unmarshal x = Inr p \<and> unmarshal y = Inr q \<and> \<not> same_zone p q)
      (on_subject (zoneSubject a) (log (world (snd (run (write_step N) r es)))))
    \<and> successively (\<lambda>x y. \<exists>p q. unmarshal x = Inr p \<and> unmarshal y = Inr q \<and> ev_presence p \<noteq> ev_presence q)
      (on_subject (presenceSubject a) (log (world (snd (run (write_step N) r es)))))
    \<and> subseq (on_subject (zoneSubject a) (log (world (snd (run (write_step N) r es)))))
        (map payload_of (filter is_zone (of_actor a es)))
    \<and> subseq (on_subject (presenceSubject a) (log (world (snd (run (write_step N) r es)))))
        (map payload_of (filter is_presence (of_actor a es)))"
proof -
  note on = history_on_subject [OF assms]
  let ?outs = "fst (run changes zero_actorState (of_actor a es))"
  have differ: "successively (\<lambda>x y. \<exists>p q. unmarshal x = Inr p \<and> unmarshal y = Inr q \<and> \<not> S p q)
      (map payload_of (filter P ?outs))"
    if "successively (\<lambda>p q. \<not> S p q) (filter P ?outs)" for S P
    by (rule successively_payload [OF that]) (use changes_wire_ok [OF assms(2)] in auto)
  have "successively (\<lambda>p q. \<not> same_zone p q) (filter is_zone ?outs)"
    using zone_detector.run_no_repeats [OF zero_knows_nothing(1)] by simp
  moreover have "successively (\<lambda>p q. \<not> same_presence p q) (filter is_presence ?outs)"
    using presence_detector.run_no_repeats [OF zero_knows_nothing(2)] by simp
  ultimately show ?thesis
    using differ [of same_zone is_zone] differ [of same_presence is_presence]
      zone_detector.run_subseq [of zero_actorState "of_actor a es"]
      presence_detector.run_subseq [of zero_actorState "of_actor a es"]
    by (simp add: on store_zone store_presence same_presence_def subseq_map)
qed

theorem changes_never_repeat_witness:
  "successively (\<lambda>x y. \<exists>p q. unmarshal x = Inr p \<and> unmarshal y = Inr q \<and> \<not> same_zone p q)
      (on_subject (zoneSubject ''tag'') (fst (world (snd (run (write_step mem_nats) fresh [sample_event])))))
    \<and> successively (\<lambda>x y. \<exists>p q. unmarshal x = Inr p \<and> unmarshal y = Inr q \<and> ev_presence p \<noteq> ev_presence q)
      (on_subject (presenceSubject ''tag'') (fst (world (snd (run (write_step mem_nats) fresh [sample_event])))))
    \<and> subseq (on_subject (zoneSubject ''tag'') (fst (world (snd (run (write_step mem_nats) fresh [sample_event])))))
        (map payload_of (filter is_zone (of_actor ''tag'' [sample_event])))
    \<and> subseq (on_subject (presenceSubject ''tag'') (fst (world (snd (run (write_step mem_nats) fresh [sample_event])))))
        (map payload_of (filter is_presence (of_actor ''tag'' [sample_event])))"
  by (rule changes_never_repeat [of mem_nats fst snd "{''tag''}" "[sample_event]" fresh "''tag''"]) simp_all

text \<open>What \<open>NewRepository\<close> returns when it succeeds: an empty cache over the world it leaves.\<close>

lemma NewRepository_cache:
  "NewRepository N age w = (Inr r, w') \<Longrightarrow> cache r = (\<lambda>_. None) \<and> world r = w'"
  by (auto simp: NewRepository_def Let_def split: option.splits prod.splits)

text \<open>
  C7: a restart loses nothing. If the process stops after some writes and a new repository
  is made on the same stream and bucket, the further writes append exactly the messages,
  and leave exactly the actor states, that they would have without the restart.
\<close>

theorem restart_transparent:
  assumes "reliable N log kv A" and "coherent kv A r" and "events_ok A es" and "events_ok A fs"
    and "NewRepository N age (world (snd (run (write_step N) r es))) = (Inr r', w')"
    and "log w' = log (world (snd (run (write_step N) r es)))"
    and "kv w' = kv (world (snd (run (write_step N) r es)))"
  shows "log (world (snd (run (write_step N) r' fs))) = log (world (snd (run (write_step N) r (es @ fs))))
    \<and> store_state_of kv (snd (run (write_step N) r' fs)) = store_state_of kv (snd (run (write_step N) r (es @ fs)))"
proof -
  let ?r = "snd (run (write_step N) r es)"
  from NewRepository_cache [OF assms(5)] have r': "cache r' = (\<lambda>_. None)" "world r' = w'" by auto
  have coh: "coherent kv A ?r" by (rule writes_store(3) [OF assms(1,3,2)])
  then have coh': "coherent kv A r'" using r' assms(7) by (simp add: coherent_def)
  have same: "store_state_of kv r' = store_state_of kv ?r"
    using r' assms(7) by (auto simp: store_state_of_def)
  have "snd (run (write_step N) r (es @ fs)) = snd (run (write_step N) ?r fs)"
    by (simp add: run_append case_prod_beta)
  then show ?thesis
    using writes_store(1,2) [OF assms(1,4) coh] writes_store(1,2) [OF assms(1,4) coh'] same r'(2) assms(6)
    by simp
qed

lemma mem_nats_restart: "NewRepository mem_nats age w = (Inr \<lparr>cache = (\<lambda>_. None), world = w\<rparr>, w)"
  by (simp add: NewRepository_def provisionStream_def provisionKV_def mem_nats_def Let_def)

theorem restart_transparent_witness:
  "let r' = \<lparr>cache = (\<lambda>_. None), world = world (snd (run (write_step mem_nats) fresh [sample_event]))\<rparr>
   in fst (world (snd (run (write_step mem_nats) r' [sample_event])))
        = fst (world (snd (run (write_step mem_nats) fresh ([sample_event] @ [sample_event]))))
    \<and> store_state_of snd (snd (run (write_step mem_nats) r' [sample_event]))
        = store_state_of snd (snd (run (write_step mem_nats) fresh ([sample_event] @ [sample_event])))"
  unfolding Let_def
  by (rule restart_transparent [of mem_nats fst snd "{''tag''}" fresh "[sample_event]" "[sample_event]" 0,
        OF mem_nats_reliable fresh_coherent sample_events_ok sample_events_ok mem_nats_restart refl refl])

section \<open>Properties on any NATS\<close>

lemma publish_cache: "cache (snd (publish N subj e r)) = cache r"
  by (simp add: publish_def split: sum.split prod.split)

lemma getActorState_cache:
  "getActorState N a r = (s, err, r1) \<Longrightarrow>
     cache r1 = cache r \<or> (cache r a = None \<and> err = None \<and> cache r1 = (cache r)(a \<mapsto> s))"
  by (auto simp: getActorState_def setActorState_def split: option.splits sum.splits if_splits)

lemma getActorState_world: "getActorState N a r = (s, err, r1) \<Longrightarrow> world r1 = world r"
  by (auto simp: getActorState_def setActorState_def split: option.splits sum.splits if_splits)

lemma persist_cache: "cache (snd (persistActorState N a s r)) = cache r"
  by (simp add: persistActorState_def split: sum.split prod.split)

text \<open>After a successful handler the cache calls the event unchanged.\<close>

lemma getActorState_hit:
  assumes "getActorState N a r = (s, err, r1)" and "hasZones s \<or> hasPresence s"
  shows "cache r1 a = Some s"
  using assms
  by (auto simp: getActorState_def setActorState_def zero_actorState_def
      split: option.splits sum.splits if_splits)

lemma handleZoneChange_remembers:
  assumes "handleZoneChange N e r = (None, r')"
  shows "\<exists>s. cache r' (ev_actor e) = Some s \<and> zone_unchanged s e"
proof -
  obtain prev err r1 where get: "getActorState N (ev_actor e) r = (prev, err, r1)"
    using prod_cases3 by blast
  show ?thesis
  proof (cases "zone_unchanged prev e")
    case True
    then have "hasZones prev" by (simp add: zone_unchanged_def)
    with True assms get getActorState_hit [OF get] show ?thesis
      by (simp add: handleZoneChange_def)
  next
    case False
    obtain res r2 where pub: "publish N (zoneSubject (ev_actor e)) e r1 = (res, r2)" by force
    with False assms get obtain off where res: "res = Inr off"
      by (cases res) (auto simp: handleZoneChange_def)
    let ?st = "zone_recorded prev e"
    have "r' = snd (persistActorState N (ev_actor e) ?st (setActorState (ev_actor e) ?st r2))"
      using False assms get pub res by (simp add: handleZoneChange_def case_prod_beta Let_def)
    then show ?thesis by (simp add: persist_cache setActorState_def same_zone_def)
  qed
qed

lemma handlePresenceChange_remembers:
  assumes "handlePresenceChange N e r = (None, r')"
  shows "\<exists>s. cache r' (ev_actor e) = Some s \<and> presence_unchanged s e"
proof -
  obtain prev err r1 where get: "getActorState N (ev_actor e) r = (prev, err, r1)"
    using prod_cases3 by blast
  show ?thesis
  proof (cases "presence_unchanged prev e")
    case True
    then have "hasPresence prev" by (simp add: presence_unchanged_def)
    with True assms get getActorState_hit [OF get] show ?thesis
      by (simp add: handlePresenceChange_def)
  next
    case False
    obtain res r2 where pub: "publish N (presenceSubject (ev_actor e)) e r1 = (res, r2)" by force
    with False assms get obtain off where res: "res = Inr off"
      by (cases res) (auto simp: handlePresenceChange_def)
    let ?st = "presence_recorded prev e"
    have "r' = snd (persistActorState N (ev_actor e) ?st (setActorState (ev_actor e) ?st r2))"
      using False assms get pub res by (simp add: handlePresenceChange_def case_prod_beta Let_def)
    then show ?thesis by (simp add: persist_cache setActorState_def same_presence_def)
  qed
qed

text \<open>How a handler fails: only by its publish, with the state the lookup left.\<close>

lemma handler_fails:
  assumes "handleZoneChange N e r = (Some err, r') \<or> handlePresenceChange N e r = (Some err, r')"
  obtains subj s kverr r1 cause msg where
    "getActorState N (ev_actor e) r = (s, kverr, r1)" "publish N subj e r1 = (Inl cause, r')"
    "err = Wrapped msg cause"
proof -
  obtain s kverr r1 where get: "getActorState N (ev_actor e) r = (s, kverr, r1)"
    using prod_cases3 by blast
  obtain res r2 where z: "publish N (zoneSubject (ev_actor e)) e r1 = (res, r2)" by force
  obtain res' r2' where p: "publish N (presenceSubject (ev_actor e)) e r1 = (res', r2')" by force
  from assms show thesis
  proof
    assume "handleZoneChange N e r = (Some err, r')"
    with get z have "\<exists>cause msg. res = Inl cause \<and> r2 = r' \<and> err = Wrapped msg cause"
      by (cases res) (auto simp: handleZoneChange_def case_prod_beta Let_def split: if_splits)
    with that [OF get] z show thesis by blast
  next
    assume "handlePresenceChange N e r = (Some err, r')"
    with get p have "\<exists>cause msg. res' = Inl cause \<and> r2' = r' \<and> err = Wrapped msg cause"
      by (cases res') (auto simp: handlePresenceChange_def case_prod_beta Let_def split: if_splits)
    with that [OF get] p show thesis by blast
  qed
qed

text \<open>A failed \<open>Write\<close>: which publish failed, and from which repository.\<close>

lemma Write_fails:
  assumes "Write N e r = (Inl err, r')" and "r1 = snd (publish N (rawSubject (ev_actor e)) e r)"
  obtains subj r2 cause msg where "publish N subj e r2 = (Inl cause, r')" "err = Wrapped msg cause"
    "r2 \<in> {r, r1, snd (snd (getActorState N (ev_actor e) r1))}"
proof -
  obtain res where raw: "publish N (rawSubject (ev_actor e)) e r = (res, r1)"
    using assms(2) by (metis prod.collapse)
  show thesis
  proof (cases res)
    case (Inl cause)
    with raw assms(1) have "r1 = r'" "err = Wrapped (''jetstream: write raw event '' @ ev_ID e) cause"
      by (simp_all add: Write_def)
    with that raw Inl show thesis by blast
  next
    case (Inr off)
    with raw assms(1) have change: "write_change N e r1 = (Some err, r')"
      by (auto simp: Write_def split: prod.splits option.splits)
    show thesis
    proof (cases "is_zone e \<or> is_presence e")
      case True
      with change have "handleZoneChange N e r1 = (Some err, r') \<or> handlePresenceChange N e r1 = (Some err, r')"
        by (auto simp: write_change_def split: if_splits)
      then obtain subj s kverr r2 cause msg where
        get: "getActorState N (ev_actor e) r1 = (s, kverr, r2)"
        and rest: "publish N subj e r2 = (Inl cause, r')" "err = Wrapped msg cause"
        by (rule handler_fails)
      from get that [OF rest] show thesis by simp
    next
      case False
      obtain res' r2 where cmd: "publish N (commandSubject (ev_actor e)) e r1 = (res', r2)" by force
      with change False have "\<exists>cause msg. res' = Inl cause \<and> r2 = r' \<and> err = Wrapped msg cause"
        by (cases res') (auto simp: write_change_def split: if_splits)
      with that cmd show thesis by blast
    qed
  qed
qed

lemma publish_fails:
  assumes "publish N subj e r = (Inl err, r')"
  shows "(\<exists>cause. marshal e = Inl cause \<and> err_is err cause)
    \<or> (\<exists>data w. marshal e = Inr data \<and> fst (js_PublishMsg N subj data w) = Inl err)"
proof (cases "marshal e")
  case (Inl cause)
  with assms show ?thesis by (auto simp: publish_def)
next
  case (Inr data)
  with assms have "fst (js_PublishMsg N subj data (world r)) = Inl err"
    by (auto simp: publish_def split: prod.splits sum.splits)
  with Inr show ?thesis by blast
qed

text \<open>The cache calls a zone or presence event unchanged.\<close>

definition change_known :: "'w repository \<Rightarrow> event \<Rightarrow> bool" where
  "change_known r e =
     ((is_zone e \<longrightarrow> (\<exists>s. cache r (ev_actor e) = Some s \<and> zone_unchanged s e))
      \<and> (is_presence e \<longrightarrow> (\<exists>s. cache r (ev_actor e) = Some s \<and> presence_unchanged s e)))"

lemma Write_known: "Write N e r = (Inr off, r') \<Longrightarrow> change_known r' e"
proof -
  assume "Write N e r = (Inr off, r')"
  then obtain r1 where "write_change N e r1 = (None, r')"
    by (auto simp: Write_def split: prod.splits sum.splits option.splits)
  then show ?thesis
    using handleZoneChange_remembers [of N e r1 r'] handlePresenceChange_remembers [of N e r1 r']
    by (auto simp: change_known_def write_change_def)
qed

text \<open>
  Whatever NATS does, a \<open>Write\<close> that returns an offset has recorded the change: the
  cache now calls the same zone event, or the same presence event, unchanged.
\<close>

lemma Write_remembers:
  assumes "Write N e r = (Inr off, r')"
  shows "(is_zone e \<longrightarrow> (\<exists>s. cache r' (ev_actor e) = Some s \<and> zone_unchanged s e))
    \<and> (is_presence e \<longrightarrow> (\<exists>s. cache r' (ev_actor e) = Some s \<and> presence_unchanged s e))"
  using Write_known [OF assms] by (simp add: change_known_def)

lemma mem_write_ok: "\<exists>off r'. Write mem_nats sample_event fresh = (Inr off, r')"
  using Write_store [OF mem_nats_reliable, of sample_event "{''tag''}" fresh] by simp metis

text \<open>
  What NATS promises of the bucket: publishing to the stream leaves it alone, and a value read
  is the one stored. Any call may fail.
\<close>

definition bucket_apart :: "'w nats \<Rightarrow> ('w \<Rightarrow> string \<Rightarrow> payload option) \<Rightarrow> bool" where
  "bucket_apart N kv \<longleftrightarrow>
     (\<forall>subj data w. kv (snd (js_PublishMsg N subj data w)) = kv w)
     \<and> (\<forall>a w v. kv_Get N a w = Inr v \<longrightarrow> kv w a = Some v)"

text \<open>The bucket is as before, and so is the cache except for a state loaded from the bucket.\<close>

definition only_loads ::
  "('w \<Rightarrow> string \<Rightarrow> payload option) \<Rightarrow> string \<Rightarrow> 'w repository \<Rightarrow> 'w repository \<Rightarrow> bool" where
  "only_loads kv a r r' \<longleftrightarrow> kv (world r') = kv (world r)
     \<and> (\<forall>b. cache r' b = cache r b \<or> (b = a \<and> cache r b = None \<and>
          (\<exists>p v. kv (world r) b = Some p \<and> unmarshal_kvas p = Inr v \<and> cache r' b = Some (actorState_of_kv v))))"

text \<open>What the next lookup of a readable bucket finds.\<close>

definition known :: "('w \<Rightarrow> string \<Rightarrow> payload option) \<Rightarrow> 'w repository \<Rightarrow> string \<Rightarrow> actorState" where
  "known kv r a = (case cache r a of Some s \<Rightarrow> s | None \<Rightarrow> stored (kv (world r) a))"

lemma only_loads_known: "only_loads kv a r r' \<Longrightarrow> known kv r' b = known kv r b"
  unfolding only_loads_def by (auto simp: known_def stored_def dest!: spec [of _ b] split: option.split)

lemma only_loads_refl: "cache r' = cache r \<Longrightarrow> kv (world r') = kv (world r) \<Longrightarrow> only_loads kv a r r'"
  by (simp add: only_loads_def)

lemma only_loads_publish:
  assumes "bucket_apart N kv" and "only_loads kv a r r1"
  shows "only_loads kv a r (snd (publish N subj e r1))"
proof -
  have "kv (world (snd (publish N subj e r1))) = kv (world r1)"
  proof (cases "marshal e")
    case (Inr data)
    obtain res w where js: "js_PublishMsg N subj data (world r1) = (res, w)" by force
    with assms(1) have "kv w = kv (world r1)" unfolding bucket_apart_def by (metis snd_conv)
    with Inr js show ?thesis by (cases res) (simp_all add: publish_def)
  qed (simp add: publish_def)
  with assms(2) publish_cache [of N subj e r1] show ?thesis by (simp add: only_loads_def)
qed

lemma only_loads_get:
  assumes "bucket_apart N kv" and "cache r1 = cache r" and "kv (world r1) = kv (world r)"
  shows "only_loads kv a r (snd (snd (getActorState N a r1)))"
proof (cases "cache r1 a")
  case (Some s)
  with assms show ?thesis by (simp add: getActorState_def only_loads_refl)
next
  case None
  show ?thesis
  proof (cases "kv_Get N a (world r1)")
    case (Inl err)
    with None assms show ?thesis by (simp add: getActorState_def only_loads_refl)
  next
    case (Inr p)
    with assms(1,3) have "kv (world r) a = Some p" unfolding bucket_apart_def by metis
    with None Inr assms(2,3) show ?thesis
      by (cases "unmarshal_kvas p") (simp_all add: getActorState_def setActorState_def only_loads_def)
  qed
qed

text \<open>
  C30: whatever else NATS does, a \<open>Write\<close> that fails records nothing, neither in the cache nor in
  the bucket, so that the event still counts as a change when it comes again, also after a
  restart: the bucket is as before, the cache too, except that the actor's state may have
  been loaded into it from the bucket, and every lookup finds what it found before.
\<close>

theorem Write_failure_records_nothing:
  assumes "bucket_apart N kv" and "Write N e r = (Inl err, r')"
  shows "kv (world r') = kv (world r) \<and> known kv r' = known kv r
    \<and> (\<forall>b. cache r' b = cache r b \<or> (b = ev_actor e \<and> cache r b = None \<and>
          (\<exists>p v. kv (world r) b = Some p \<and> unmarshal_kvas p = Inr v \<and> cache r' b = Some (actorState_of_kv v))))"
proof -
  let ?r1 = "snd (publish N (rawSubject (ev_actor e)) e r)"
  from Write_fails [OF assms(2) refl] obtain subj r2 cause msg where
    pub: "publish N subj e r2 = (Inl cause, r')" and r2: "r2 \<in> {r, ?r1, snd (snd (getActorState N (ev_actor e) ?r1))}"
    by metis
  have start: "only_loads kv (ev_actor e) r r" by (simp add: only_loads_refl)
  note raw = only_loads_publish [OF assms(1) start, of "rawSubject (ev_actor e)" e]
  have "kv (world ?r1) = kv (world r)" using raw by (simp add: only_loads_def)
  with only_loads_get [OF assms(1) publish_cache] have
    "only_loads kv (ev_actor e) r (snd (snd (getActorState N (ev_actor e) ?r1)))" by blast
  with r2 start raw have "only_loads kv (ev_actor e) r r2" by blast
  from only_loads_publish [OF assms(1) this, of subj e] pub have last: "only_loads kv (ev_actor e) r r'" by simp
  then have "known kv r' = known kv r" using only_loads_known by blast
  with last show ?thesis unfolding only_loads_def by blast
qed

text \<open>A NATS whose stream is down.\<close>

definition dead_stream :: "mem nats" where
  "dead_stream = mem_nats\<lparr>js_PublishMsg := (\<lambda>subj data w. (Inl ContextCanceled, w))\<rparr>"

lemma dead_stream_write:
  "Write dead_stream sample_event fresh
     = (Inl (Wrapped (''jetstream: write raw event '' @ ev_ID sample_event) ContextCanceled), fresh)"
  by (simp add: Write_def publish_def marshal_payload_of dead_stream_def)

text \<open>A repository just started on a bucket that knows the tag's presence.\<close>

definition known_presence :: actorState where
  "known_presence = zero_actorState\<lparr>as_presence := PresenceTypeActive, hasPresence := True\<rparr>"

definition restarted :: "mem repository" where
  "restarted = \<lparr>cache = (\<lambda>_. None),
     world = ([], [''tag'' \<mapsto> Payload (projr (enc_kvas (kv_of_actorState known_presence)))])\<rparr>"

lemma known_presence_ok: "actor_state_ok known_presence"
  by (simp add: known_presence_def actor_state_ok_def kvas_ok_def kv_of_actorState_def zero_actorState_def)

lemma no_known_zones: "\<not> hasZones known_presence"
  by (simp add: known_presence_def zero_actorState_def)

lemma unmarshal_known_presence:
  "unmarshal_kvas (Payload (projr (enc_kvas (kv_of_actorState known_presence)))) = Inr (kv_of_actorState known_presence)"
  using known_presence_ok by (simp add: actor_state_ok_def enc_kvas_def unmarshal_enc_kvas)

lemma restarted_state: "stored (snd (world restarted) ''tag'') = known_presence"
  by (simp add: restarted_def stored_def unmarshal_known_presence)

text \<open>A stream that takes raw messages and refuses the zone messages of the tag.\<close>

definition no_zone_messages :: "mem nats" where
  "no_zone_messages = mem_nats\<lparr>js_PublishMsg := (\<lambda>subj data w.
     if subj = zoneSubject ''tag'' then (Inl ContextDeadlineExceeded, w) else js_PublishMsg mem_nats subj data w)\<rparr>"

theorem Write_failure_records_nothing_witness:
  "\<exists>err r'. Write no_zone_messages sample_event restarted = (Inl err, r')
     \<and> fst (world r') \<noteq> fst (world restarted) \<and> snd (world r') = snd (world restarted)
     \<and> known snd r' ''tag'' = known_presence"
proof -
  have apart: "bucket_apart no_zone_messages snd"
    by (simp add: bucket_apart_def no_zone_messages_def mem_nats_def split: option.split)
  have "\<exists>err r'. Write no_zone_messages sample_event restarted = (Inl err, r') \<and> fst (world r') \<noteq> fst (world restarted)"
    by (simp add: Write_def publish_def marshal_payload_of write_change_def handleZoneChange_def getActorState_def
        no_zone_messages_def mem_nats_def restarted_def unmarshal_known_presence setActorState_def Let_def
        zone_unchanged_def no_known_zones)
  then obtain err r' where w: "Write no_zone_messages sample_event restarted = (Inl err, r')"
    and raw: "fst (world r') \<noteq> fst (world restarted)" by blast
  have "known snd restarted ''tag'' = known_presence"
    using restarted_state by (simp add: known_def restarted_def)
  with Write_failure_records_nothing [OF apart w] w raw show ?thesis by simp
qed

lemma Write_error_cause:
  assumes "Write N e r = (Inl err, r')"
  shows "(\<exists>cause. marshal e = Inl cause \<and> err_is err cause)
    \<or> (\<exists>subj data w cause. fst (js_PublishMsg N subj data w) = Inl cause \<and> err_is err cause)"
proof -
  obtain subj r1 cause msg where
    pub: "publish N subj e r1 = (Inl cause, r')" and err: "err = Wrapped msg cause"
    by (rule Write_fails [OF assms refl])
  have "err_is err c" if "err_is cause c" for c using that err by simp
  with publish_fails [OF pub] err_is_refl [of cause] show ?thesis by blast
qed

text \<open>
  Whatever NATS does, a \<open>Write\<close> fails only because the event cannot be marshalled or a
  publish failed, and the error returned wraps that cause, so that \<open>errors.Is\<close> still finds
  it (a cancelled context in particular). A failing bucket never makes it fail.
\<close>

lemma Write_errors:
  assumes "Write N e r = (Inl err, r')"
  shows "(\<exists>cause. marshal e = Inl cause \<and> err_is err cause)
    \<or> (\<exists>subj data w cause. fst (js_PublishMsg N subj data w) = Inl cause \<and> err_is err cause)"
  using assms by (rule Write_error_cause)

text \<open>What an outage of the bucket's reads leaves as it is.\<close>

lemma outage_publish: "publish (N\<lparr>kv_Get := g\<rparr>) = publish N"
  by (simp add: publish_def fun_eq_iff split: sum.split)

lemma outage_persist: "persistActorState (N\<lparr>kv_Get := g\<rparr>) = persistActorState N"
  by (simp add: persistActorState_def fun_eq_iff split: sum.split)

text \<open>
  C33: a zone event written while the bucket cannot be read, for an actor that is not cached,
  erases the presence the bucket holds: the write succeeds, and in the bucket as in the
  cache the actor then has the zones of the event and no presence. The same presence,
  written again once the bucket can be read, is published again although it never changed.
\<close>

theorem bucket_failure_forgets_presence:
  assumes "reliable N log kv A" and "outage = N\<lparr>kv_Get := (\<lambda>k w. Inl kverr)\<rparr>" and "\<not> err_is kverr ErrKeyNotFound"
    and "coherent kv A r" and "cache r (ev_actor e) = None"
    and "ev_actor e \<in> A" and "event_wire_ok e" and "is_zone e"
    and "ev_actor f = ev_actor e" and "event_wire_ok f" and "is_presence f"
    and "presence_unchanged (stored (kv (world r) (ev_actor e))) f"
  shows "\<exists>off r' off' r''. Write outage e r = (Inr off, r')
    \<and> stored (kv (world r') (ev_actor e)) = zone_recorded zero_actorState e
    \<and> cache r' (ev_actor e) = Some (zone_recorded zero_actorState e)
    \<and> \<not> hasPresence (zone_recorded zero_actorState e)
    \<and> Write N f r' = (Inr off', r'')
    \<and> log (world r'') = log (world r')
        @ [(rawSubject (ev_actor e), payload_of f), (presenceSubject (ev_actor e), payload_of f)]"
proof -
  let ?a = "ev_actor e" and ?st = "zone_recorded zero_actorState e"
  from publish_reliable [OF assms(1,6,7), of "rawSubject ?a" r] obtain off w1 where
    raw: "publish N (rawSubject ?a) e r = (Inr off, r\<lparr>world := w1\<rparr>)" and kv: "kv w1 = kv (world r)" by blast
  have get: "getActorState outage ?a (r\<lparr>world := w1\<rparr>) = (zero_actorState, Some kverr, r\<lparr>world := w1\<rparr>)"
    using assms(2,3,5) by (simp add: getActorState_def)
  from publish_and_record [OF assms(1,6,7) coherent_world [OF assms(4) kv], of "zoneSubject ?a" ?st]
    recorded_ok(1) [OF assms(7) actor_state_ok_zero] obtain off2 r2 r3 where
    pub: "publish N (zoneSubject ?a) e (r\<lparr>world := w1\<rparr>) = (Inr off2, r2)"
    and put: "persistActorState N ?a ?st (setActorState ?a ?st r2) = (None, r3)"
    and st: "store_state_of kv r3 = (store_state_of kv (r\<lparr>world := w1\<rparr>))(?a := ?st)" and coh: "coherent kv A r3"
    by blast
  have "handleZoneChange outage e (r\<lparr>world := w1\<rparr>) = (None, r3)"
    using get pub put by (simp add: handleZoneChange_def assms(2) outage_publish outage_persist)
  with raw assms(8) have wr: "Write outage e r = (Inr off, r3)"
    by (simp add: Write_def write_change_def assms(2) outage_publish)
  have cached: "cache r3 ?a = Some ?st"
    using persist_cache [of N ?a ?st "setActorState ?a ?st r2"] put by (simp add: setActorState_def)
  have bare: "\<not> hasPresence ?st" by (simp add: zone_recorded_def zero_actorState_def)
  then have "\<not> presence_unchanged ?st f" by (simp add: presence_unchanged_def)
  with assms(9,11) st have "fst (store_step (store_state_of kv r3) f) = [(rawSubject ?a, f), (presenceSubject ?a, f)]"
    by (simp add: changes_def change_subject_def)
  with Write_store [OF assms(1) _ assms(10) coh] assms(6,9) obtain off' r4 where
    "Write N f r3 = (Inr off', r4)"
    "log (world r4) = log (world r3) @ [(rawSubject ?a, payload_of f), (presenceSubject ?a, payload_of f)]"
    by (metis messages_simps(1,2))
  moreover from st have "stored (kv (world r3) ?a) = ?st" by (metis fun_upd_same store_state_of_def)
  ultimately show ?thesis using wr cached bare by simp
qed

text \<open>A presence event of the sample actor, and a zone event of another one.\<close>

definition sample_presence :: event where
  "sample_presence = sample_event\<lparr>ev_Type := EventTypePresence\<rparr>"

definition other_event :: event where
  "other_event = sample_event\<lparr>ev_Actor := (ev_Actor sample_event)\<lparr>actor_ID := ''b''\<rparr>\<rparr>"

lemma sample_presence_ok [simp]: "event_wire_ok sample_presence" "event_wire_ok other_event"
  "event_wire_ok sample_event"
  "ev_actor sample_presence = ''tag''" "ev_actor other_event = ''b''" "is_presence sample_presence"
  using sample_event_ok
  by (auto simp: sample_presence_def other_event_def event_wire_ok_def wire_ok_defs toWireEvent_def toWireState_def
      valid_ascii)

lemma restarted_coherent: "coherent snd {''tag''} restarted"
  using restarted_state known_presence_ok
  by (simp add: coherent_def restarted_def unmarshal_known_presence)

theorem bucket_failure_forgets_presence_witness:
  "\<exists>off r'. Write (mem_nats\<lparr>kv_Get := (\<lambda>k w. Inl ContextDeadlineExceeded)\<rparr>) sample_event restarted = (Inr off, r')
     \<and> hasPresence (stored (snd (world restarted) ''tag'')) \<and> \<not> hasPresence (stored (snd (world r') ''tag''))"
proof -
  have "presence_unchanged known_presence sample_presence"
    by (simp add: presence_unchanged_def known_presence_def sample_presence_def sample_event_def ev_presence_def)
  with bucket_failure_forgets_presence [OF mem_nats_reliable refl _ restarted_coherent, of ContextDeadlineExceeded
      sample_event sample_presence] restarted_state
  obtain off r' where "Write (mem_nats\<lparr>kv_Get := (\<lambda>k w. Inl ContextDeadlineExceeded)\<rparr>) sample_event restarted = (Inr off, r')"
    "stored (snd (world r') ''tag'') = zone_recorded zero_actorState sample_event"
    "\<not> hasPresence (zone_recorded zero_actorState sample_event)"
    by (auto simp: restarted_def)
  then show ?thesis using restarted_state by (simp add: known_presence_def)
qed

end
