(* ===== verification/Watch.thy ===== *)
theory Watch
  imports Wire Codec
begin

text \<open>
  The read path of \<open>internal/repositories/jetstream/repository.go\<close>: \<open>Watch\<close> and \<open>decode\<close>.
  Subscribing and unsubscribing are NATS calls, fields of the record \<open>nats_subs\<close>. What the
  blocking \<open>select\<close> takes next is the environment's choice: the list of its outcomes is an
  argument, and a list that ends leaves \<open>Watch\<close> \<open>Blocked\<close> in the \<open>select\<close>. The callback
  \<open>deliver\<close> is a function on a state of the caller's.
\<close>

section \<open>What NATS hands over\<close>

datatype sub_opt = DeliverLastPerSubject | StartSequence uint64 | AckNone

record nats_msg =
  msg_Data :: payload
  msg_Metadata :: "uint64 result"

text \<open>A subscription handle is a number.\<close>

record 'w nats_subs =
  js_ChanSubscribe :: "string \<Rightarrow> sub_opt list \<Rightarrow> 'w \<Rightarrow> nat result \<times> 'w"
  sub_Unsubscribe :: "nat \<Rightarrow> 'w \<Rightarrow> 'w"

text \<open>What the \<open>select\<close> of the loop takes: the context's error, a closed channel or a message.\<close>

datatype watch_in = Done go_error | ChClosed | Msg nats_msg

datatype outcome = Blocked | Returned "go_error option"

type_synonym 'd deliver = "event \<Rightarrow> string \<Rightarrow> 'd \<Rightarrow> go_error option \<times> 'd"

section \<open>decode and the loop\<close>

definition decode :: "nats_msg \<Rightarrow> (event \<times> string) result" where
  "decode msg =
     (case unmarshal (msg_Data msg) of
        Inl err \<Rightarrow> Inl err
      | Inr event \<Rightarrow>
          (case msg_Metadata msg of
             Inl err \<Rightarrow> Inl (Wrapped ''jetstream: read message metadata'' err)
           | Inr seq \<Rightarrow> Inr (event, encodeOffset seq)))"

fun watch_for :: "'d deliver \<Rightarrow> watch_in list \<Rightarrow> 'd \<Rightarrow> outcome \<times> 'd" where
  "watch_for deliver [] d = (Blocked, d)"
| "watch_for deliver (Done err # ins) d = (Returned (Some err), d)"
| "watch_for deliver (ChClosed # ins) d = (Returned None, d)"
| "watch_for deliver (Msg msg # ins) d =
     (case decode msg of
        Inl err \<Rightarrow> watch_for deliver ins d
      | Inr (event, off) \<Rightarrow>
          (case deliver event off d of
             (Some err, d') \<Rightarrow> (Returned (Some err), d')
           | (None, d') \<Rightarrow> watch_for deliver ins d'))"

section \<open>Subscribing\<close>

definition offset_go_error :: "offset_error \<Rightarrow> go_error" where
  "offset_go_error err =
     (case err of
        ZeroSequence offset \<Rightarrow> ErrorString (''jetstream: offset '' @ offset @ '' decodes to zero sequence'')
      | InvalidOffset offset _ \<Rightarrow> Wrapped (''jetstream: invalid offset '' @ offset) (ErrorString ''strconv.ParseUint''))"

text \<open>The options: a snapshot without an offset, a replay from the offset with one.\<close>

definition watch_opts :: "string option \<Rightarrow> sub_opt list result" where
  "watch_opts offset =
     (case offset of
        None \<Rightarrow> Inr [DeliverLastPerSubject, AckNone]
      | Some off \<Rightarrow>
          (case decodeOffset off of
             Inl err \<Rightarrow> Inl (offset_go_error err)
           | Inr seq \<Rightarrow> Inr [StartSequence seq, AckNone]))"

definition unsubscribe_all :: "'w nats_subs \<Rightarrow> nat list \<Rightarrow> 'w \<Rightarrow> 'w" where
  "unsubscribe_all S subs w = fold (sub_Unsubscribe S) subs w"

fun subscribe_all ::
  "'w nats_subs \<Rightarrow> sub_opt list \<Rightarrow> string list \<Rightarrow> nat list \<Rightarrow> 'w \<Rightarrow> nat list result \<times> 'w" where
  "subscribe_all S opts [] subs w = (Inr subs, w)"
| "subscribe_all S opts (subj # subjs) subs w =
     (case js_ChanSubscribe S subj opts w of
        (Inl err, w') \<Rightarrow> (Inl (Wrapped (''jetstream: subscribe '' @ subj) err), unsubscribe_all S subs w')
      | (Inr sub, w') \<Rightarrow> subscribe_all S opts subjs (subs @ [sub]) w')"

text \<open>Without a subject only the end of the context is waited for.\<close>

fun wait_done :: "watch_in list \<Rightarrow> outcome" where
  "wait_done [] = Blocked"
| "wait_done (Done err # ins) = Returned (Some err)"
| "wait_done (_ # ins) = wait_done ins"

definition Watch ::
  "'w nats_subs \<Rightarrow> event_type list \<Rightarrow> string option \<Rightarrow> 'd deliver \<Rightarrow> watch_in list \<Rightarrow> 'w \<Rightarrow> 'd
    \<Rightarrow> outcome \<times> 'w \<times> 'd" where
  "Watch S types offset deliver ins w d =
     (let subjects = watchSubjects types in
      if length subjects = 0 then (wait_done ins, w, d)
      else
        (case watch_opts offset of
           Inl err \<Rightarrow> (Returned (Some err), w, d)
         | Inr opts \<Rightarrow>
             (case subscribe_all S opts subjects [] w of
                (Inl err, w') \<Rightarrow> (Returned (Some err), w', d)
              | (Inr subs, w') \<Rightarrow>
                  (case watch_for deliver ins d of
                     (Blocked, d') \<Rightarrow> (Blocked, w', d')
                   | (Returned r, d') \<Rightarrow> (Returned r, unsubscribe_all S subs w', d')))))"

section \<open>What is delivered\<close>

fun is_Msg :: "watch_in \<Rightarrow> bool" where
  "is_Msg (Msg m) = True"
| "is_Msg _ = False"

text \<open>The deliveries due: the messages that arrive before the loop ends and decode.\<close>

definition due :: "watch_in list \<Rightarrow> (event \<times> string) list" where
  "due ins = List.map_filter
     (\<lambda>i. case i of Msg m \<Rightarrow> (case decode m of Inl _ \<Rightarrow> None | Inr x \<Rightarrow> Some x) | _ \<Rightarrow> None)
     (takeWhile is_Msg ins)"

definition loop_end :: "watch_in list \<Rightarrow> outcome" where
  "loop_end ins = (case dropWhile is_Msg ins of
       Done err # _ \<Rightarrow> Returned (Some err) | ChClosed # _ \<Rightarrow> Returned None | _ \<Rightarrow> Blocked)"

text \<open>A callback that records what it is given and fails where \<open>fail\<close> says.\<close>

definition recording ::
  "(event \<Rightarrow> string \<Rightarrow> go_error option) \<Rightarrow> (event \<times> string) list deliver" where
  "recording fail e off d = (fail e off, d @ [(e, off)])"

definition succeeds :: "(event \<Rightarrow> string \<Rightarrow> go_error option) \<Rightarrow> event \<times> string \<Rightarrow> bool" where
  "succeeds fail x \<longleftrightarrow> fail (fst x) (snd x) = None"

lemma due_simps [simp]:
  "due [] = []" "due (Done err # ins) = []" "due (ChClosed # ins) = []"
  "due (Msg m # ins) = (case decode m of Inl _ \<Rightarrow> due ins | Inr x \<Rightarrow> x # due ins)"
  by (simp_all add: due_def List.map_filter_simps split: sum.split)

lemma loop_end_simps [simp]:
  "loop_end [] = Blocked" "loop_end (Done err # ins) = Returned (Some err)"
  "loop_end (ChClosed # ins) = Returned None" "loop_end (Msg m # ins) = loop_end ins"
  by (simp_all add: loop_end_def)

lemma watch_for_recording:
  "watch_for (recording fail) ins d =
     (case dropWhile (succeeds fail) (due ins) of
        [] \<Rightarrow> (loop_end ins, d @ due ins)
      | x # _ \<Rightarrow> (Returned (fail (fst x) (snd x)), d @ takeWhile (succeeds fail) (due ins) @ [x]))"
proof (induction "recording fail" ins d rule: watch_for.induct)
  case (4 msg ins d)
  show ?case
  proof (cases "decode msg")
    case (Inl err)
    then have "due (Msg msg # ins) = due ins" by simp
    with 4(1) [OF Inl] Inl show ?thesis by (simp only: watch_for.simps sum.case loop_end_simps)
  next
    case (Inr x)
    show ?thesis
    proof (cases "fail (fst x) (snd x)")
      case None
      with Inr have call: "recording fail (fst x) (snd x) d = (None, d @ [x])" by (simp add: recording_def)
      from 4(2) [OF Inr prod.collapse call [symmetric] refl] have IH: "watch_for (recording fail) ins (d @ [x]) =
          (case dropWhile (succeeds fail) (due ins) of
             [] \<Rightarrow> (loop_end ins, (d @ [x]) @ due ins)
           | y # _ \<Rightarrow> (Returned (fail (fst y) (snd y)), (d @ [x]) @ takeWhile (succeeds fail) (due ins) @ [y]))"
        by simp
      from None have "succeeds fail x" by (simp add: succeeds_def)
      with Inr call IH show ?thesis
        by (cases x; cases "dropWhile (succeeds fail) (due ins)") (simp_all del: dropWhile_eq_Nil_conv)
    next
      case (Some err)
      with Inr show ?thesis by (cases x) (simp add: recording_def succeeds_def)
    qed
  qed
qed simp_all

section \<open>Subscriptions are released\<close>

text \<open>
  What a NATS client promises of subscriptions: each success opens a new one, a failure
  opens none, and unsubscribing closes exactly the one named. \<open>opened\<close> reads off the
  world which are open.
\<close>

definition tracks_subs :: "'w nats_subs \<Rightarrow> ('w \<Rightarrow> nat set) \<Rightarrow> bool" where
  "tracks_subs S opened \<longleftrightarrow>
     (\<forall>subj opts w. case js_ChanSubscribe S subj opts w of
          (Inl err, w') \<Rightarrow> opened w' = opened w
        | (Inr sub, w') \<Rightarrow> sub \<notin> opened w \<and> opened w' = insert sub (opened w))
     \<and> (\<forall>sub w. opened (sub_Unsubscribe S sub w) = opened w - {sub})"

lemma opened_unsubscribe_all:
  "tracks_subs S opened \<Longrightarrow> opened (unsubscribe_all S subs w) = opened w - set subs"
proof (induction subs arbitrary: w)
  case (Cons sub subs)
  have "opened (sub_Unsubscribe S sub w) = opened w - {sub}"
    using Cons.prems by (simp add: tracks_subs_def)
  with Cons.IH [OF Cons.prems, of "sub_Unsubscribe S sub w"] show ?case
    by (auto simp: unsubscribe_all_def)
qed (simp add: unsubscribe_all_def)

lemma opened_subscribe_all:
  assumes "tracks_subs S opened" and "opened w = base \<union> set subs" and "base \<inter> set subs = {}"
    and "subscribe_all S opts subjs subs w = (res, w')"
  shows "case res of Inl _ \<Rightarrow> opened w' = base
    | Inr subs' \<Rightarrow> opened w' = base \<union> set subs' \<and> base \<inter> set subs' = {}"
  using assms(2-4)
proof (induction subjs arbitrary: subs w)
  case Nil
  then show ?case by auto
next
  case (Cons subj subjs)
  obtain r v where call: "js_ChanSubscribe S subj opts w = (r, v)" by force
  with assms(1) have law: "case r of Inl err \<Rightarrow> opened v = opened w
      | Inr sub \<Rightarrow> sub \<notin> opened w \<and> opened v = insert sub (opened w)"
    unfolding tracks_subs_def by (metis (mono_tags, lifting) case_prod_conv)
  show ?case
  proof (cases r)
    case (Inl err)
    with Cons.prems call law opened_unsubscribe_all [OF assms(1), of subs v]
    show ?thesis by auto
  next
    case (Inr sub)
    with law Cons.prems(1,2) have "opened v = base \<union> set (subs @ [sub])" "base \<inter> set (subs @ [sub]) = {}"
      by auto
    with Cons.IH [of v "subs @ [sub]"] Cons.prems(3) call Inr show ?thesis by simp
  qed
qed

section \<open>Properties\<close>

text \<open>
  C18: \<open>Watch\<close> delivers, in the order they arrive, every message that decodes, each with the
  offset of its stream position, and skips the others without ending; it ends with the
  callback's first error, with the context's error, or without error when the channel is
  closed, and delivers nothing afterwards.
\<close>

theorem watch_delivers:
  assumes "watchSubjects types \<noteq> []" and "watch_opts offset = Inr opts"
    and "subscribe_all S opts (watchSubjects types) [] w = (Inr subs, w1)"
  shows "\<exists>w'. Watch S types offset (recording fail) ins w [] =
     (case dropWhile (succeeds fail) (due ins) of
        [] \<Rightarrow> (loop_end ins, w', due ins)
      | x # _ \<Rightarrow> (Returned (fail (fst x) (snd x)), w', takeWhile (succeeds fail) (due ins) @ [x]))"
proof (cases "dropWhile (succeeds fail) (due ins)")
  case Nil
  with watch_for_recording [of fail ins "[]"] have "watch_for (recording fail) ins [] = (loop_end ins, due ins)"
    by (simp del: dropWhile_eq_Nil_conv)
  with assms Nil show ?thesis
    by (cases "loop_end ins") (simp_all add: Watch_def Let_def del: dropWhile_eq_Nil_conv)
next
  case (Cons x xs)
  with watch_for_recording [of fail ins "[]"] have "watch_for (recording fail) ins []
      = (Returned (fail (fst x) (snd x)), takeWhile (succeeds fail) (due ins) @ [x])"
    by simp
  with assms Cons show ?thesis by (simp add: Watch_def Let_def)
qed

text \<open>Subscriptions in memory, for the concrete instances.\<close>

definition mem_subs :: "nat set nats_subs" where
  "mem_subs = \<lparr>js_ChanSubscribe = (\<lambda>subj opts w.
        if infinite w then (Inl (ErrorString ''nats: too many subscriptions''), w)
        else let n = (if w = {} then 0 else Suc (Max w)) in (Inr n, insert n w)),
     sub_Unsubscribe = (\<lambda>sub w. w - {sub})\<rparr>"

lemma mem_subs_tracks: "tracks_subs mem_subs (\<lambda>w. w)"
proof -
  have "Suc (Max w) \<notin> w" if "finite w" for w :: "nat set"
    using Max_ge [OF that, of "Suc (Max w)"] by auto
  then show ?thesis by (auto simp: tracks_subs_def mem_subs_def Let_def split: if_splits)
qed

definition sample_msg :: nats_msg where
  "sample_msg = \<lparr>msg_Data = (case marshal sample_event of Inr p \<Rightarrow> p | Inl _ \<Rightarrow> Malformed), msg_Metadata = Inr 7\<rparr>"

lemma decode_sample: "decode sample_msg = Inr (sample_event, ''007'')"
proof -
  obtain p where "marshal sample_event = Inr p" "unmarshal p = Inr sample_event"
    using message_codec.round_trip [OF sample_event_ok] by blast
  moreover have "encodeOffset 7 = ''007''" by code_simp
  ultimately show ?thesis by (simp add: decode_def sample_msg_def)
qed

lemma mem_subscribe_one: "subscribe_all mem_subs [DeliverLastPerSubject, AckNone]
    (watchSubjects [EventTypeZone]) [] {} = (Inr [0], {0})"
  by (simp add: watchSubjects_def subject_of_type_def mem_subs_def)

theorem watch_delivers_witness:
  "\<exists>w'. Watch mem_subs [EventTypeZone] None (recording (\<lambda>e off. None))
      [Msg sample_msg, Msg \<lparr>msg_Data = Malformed, msg_Metadata = Inr 8\<rparr>, Done ContextCanceled] {} []
    = (Returned (Some ContextCanceled), w', [(sample_event, ''007'')])"
proof -
  have bad: "decode \<lparr>msg_Data = Malformed, msg_Metadata = Inr 8\<rparr> =
      Inl (Wrapped ''jetstream: unmarshal event'' (ErrorString ''json: invalid character''))"
    by (simp add: decode_def unmarshal_def)
  show ?thesis
    using watch_delivers [OF _ _ mem_subscribe_one, of None "\<lambda>e off. None"
        "[Msg sample_msg, Msg \<lparr>msg_Data = Malformed, msg_Metadata = Inr 8\<rparr>, Done ContextCanceled]"]
    by (simp add: watch_opts_def decode_sample bad succeeds_def watchSubjects_def subject_of_type_def)
qed

text \<open>
  C19: \<open>Watch\<close> leaks no subscription: whenever it has returned, on whichever path, exactly
  the subscriptions that were open before it was called are open.
\<close>

theorem watch_releases:
  assumes "tracks_subs S opened" and "Watch S types offset deliver ins w d = (Returned r, w', d')"
  shows "opened w' = opened w"
proof (cases "watchSubjects types = [] \<or> isl (watch_opts offset)")
  case True
  with assms(2) show ?thesis
    by (cases "watch_opts offset") (auto simp: Watch_def Let_def split: if_splits prod.splits sum.splits outcome.splits)
next
  case False
  then obtain opts where opts: "watch_opts offset = Inr opts" by (cases "watch_opts offset") auto
  obtain res w1 where sub: "subscribe_all S opts (watchSubjects types) [] w = (res, w1)" by force
  from opened_subscribe_all [OF assms(1) _ _ sub, of "opened w"]
  have law: "case res of Inl _ \<Rightarrow> opened w1 = opened w
    | Inr subs' \<Rightarrow> opened w1 = opened w \<union> set subs' \<and> opened w \<inter> set subs' = {}" by simp
  show ?thesis
  proof (cases res)
    case (Inl err)
    with assms(2) False opts sub law show ?thesis by (simp add: Watch_def Let_def)
  next
    case (Inr subs)
    with assms(2) False opts sub have "w' = unsubscribe_all S subs w1"
      by (simp add: Watch_def Let_def split: prod.splits outcome.splits)
    with Inr law opened_unsubscribe_all [OF assms(1), of subs w1] show ?thesis by auto
  qed
qed

theorem watch_releases_witness:
  "(case Watch mem_subs [] None (recording (\<lambda>e off. None)) [Done ContextCanceled] {5} [] of
      (r, w', d') \<Rightarrow> w') = {5}"
proof -
  obtain r w' d' where run:
    "Watch mem_subs [] None (recording (\<lambda>e off. None)) [Done ContextCanceled] {5} [] = (r, w', d')"
    using prod_cases3 by blast
  then obtain x where "r = Returned x"
    by (auto simp: Watch_def watchSubjects_def allChangeSubjects_def watch_opts_def mem_subs_def Let_def
        split: if_splits)
  with watch_releases [OF mem_subs_tracks, of "[]" None _ "[Done ContextCanceled]" "{5}" "[]"] run
  show ?thesis by simp
qed

end
