(* ===== verification/Parser.thy ===== *)
theory Parser
  imports Domain
begin

text \<open>
  \<open>internal/adapters/quuppa/parser.go\<close>: the decoded shape of a QUUPPA datagram and the
  checks \<open>parseDatagram\<close> makes after decoding. The JSON decoder (the third-party
  package sonic) is the parameter \<open>unmarshal\<close>, which returns the error's text or the
  decoded struct. The coordinates are an \<open>option\<close>, as the code distinguishes a nil
  slice from a present one; so is the pointer to the zone list.
\<close>

record udpMsg =
  TagID :: string
  TagName :: string
  TagGroupName :: string
  ResponseTS :: int64
  LastPacketTS :: int64
  LastSeenTS :: int64
  LocationTS :: int64
  Location :: "float64 list option"
  LocationType :: string
  LocationMovementStatus :: string
  LocationZoneIds :: "string list option"
  RSSILocatorCount :: int

text \<open>\<open>parseDatagram\<close> returns a message, or the reason it was rejected.\<close>

definition parseDatagram ::
  "('b \<Rightarrow> string + udpMsg) \<Rightarrow> 'b \<Rightarrow> string + udpMsg" where
  "parseDatagram unmarshal b =
     (case unmarshal b of
        Inl err \<Rightarrow> Inl (''json_error:'' @ err)
      | Inr m \<Rightarrow>
          if TagID m = '''' then Inl ''missing_tagId''
          else
            let checked =
              (if sint (ResponseTS m) \<le> 0 then
                 if 0 < sint (LastSeenTS m) then Inr (m\<lparr>ResponseTS := LastSeenTS m\<rparr>)
                 else if 0 < sint (LastPacketTS m) then Inr (m\<lparr>ResponseTS := LastPacketTS m\<rparr>)
                 else Inl ''missing_responseTS''
               else Inr m)
            in case checked of
                 Inl reason \<Rightarrow> Inl reason
               | Inr m' \<Rightarrow>
                   if LocationType m' = '''' then Inl ''missing_locationType'' else Inr m')"

section \<open>What the state machine may rely on\<close>

text \<open>A message the parser lets through.\<close>

definition wf_msg :: "udpMsg \<Rightarrow> bool" where
  "wf_msg m = (TagID m \<noteq> '''' \<and> 0 < sint (ResponseTS m) \<and> LocationType m \<noteq> '''')"

lemma wf_msgD:
  assumes "wf_msg m"
  shows "TagID m \<noteq> ''''" and "0 < sint (ResponseTS m)" and "LocationType m \<noteq> ''''"
  using assms by (auto simp: wf_msg_def)

lemma parseDatagram_wf: "parseDatagram unmarshal b = Inr m \<Longrightarrow> wf_msg m"
  by (auto simp: parseDatagram_def wf_msg_def Let_def split: sum.splits if_splits)

end
