(* ===== verification/Derive.thy ===== *)
theory Derive
  imports Parser GoNum
begin

text \<open>
  \<open>internal/adapters/quuppa/state.go\<close> and \<open>derive.go\<close>: the per-tag state, the
  transition rules of \<open>deriveEvents\<close> and the offline watchdog. \<open>deriveEvents\<close> mutates
  the state it is given, so the model returns the new state beside the events; its
  four numbered sections are the definitions \<open>tag_online\<close>, \<open>location_change\<close>,
  \<open>zone_snapshot\<close> and \<open>update_state\<close>. The callback of the watchdog is a function on
  a state of the caller's, so an error it returns is a branch of the model.
\<close>

section \<open>state.go\<close>

record tagState =
  online :: bool
  lastPacketTS :: gotime
  lastResponseTS :: gotime
  lastLocationType :: string
  lastZoneIds :: "string list"
  lastKnownLocation :: "float64 list"
  lastKnownLocationTS :: gotime
  locationLostAt :: gotime
  lastMovementStatus :: string
  name :: string
  groupName :: string

text \<open>\<open>&tagState{}\<close>, the zero value.\<close>

definition new_tagState :: tagState where
  "new_tagState = \<lparr>online = False, lastPacketTS = time_zero, lastResponseTS = time_zero,
     lastLocationType = '''', lastZoneIds = [], lastKnownLocation = [],
     lastKnownLocationTS = time_zero, locationLostAt = time_zero, lastMovementStatus = '''',
     name = '''', groupName = ''''\<rparr>"

text \<open>The labelled loop of \<open>zonesEqual\<close>: every zone of \<open>a\<close> has a match in \<open>b\<close>.\<close>

fun zones_outer :: "string list \<Rightarrow> string list \<Rightarrow> bool" where
  "zones_outer [] b = True"
| "zones_outer (az # a) b = (if List.member b az then zones_outer a b else False)"

definition zonesEqual :: "string list \<Rightarrow> string list \<Rightarrow> bool" where
  "zonesEqual a b = (if length a \<noteq> length b then False else zones_outer a b)"

section \<open>derive.go: constants and helpers\<close>

definition OfflineThreshold :: duration where
  "OfflineThreshold = 12 * second"

definition WatchdogTick :: duration where
  "WatchdogTick = 2 * second"

definition isLocationType :: "string \<Rightarrow> bool" where
  "isLocationType t = (t = ''position'')"

definition normaliseZones :: "string list option \<Rightarrow> string list" where
  "normaliseZones p = (case p of None \<Rightarrow> [] | Some zs \<Rightarrow> zs)"

fun pointFromSlice :: "float64 list \<Rightarrow> point option" where
  "pointFromSlice (x # y # z # _) = Some \<lparr>pt_X = x, pt_Y = y, pt_Z = z\<rparr>"
| "pointFromSlice _ = None"

definition pointFromMsg :: "udpMsg \<Rightarrow> point option" where
  "pointFromMsg msg = pointFromSlice (case Location msg of None \<Rightarrow> [] | Some l \<Rightarrow> l)"

definition locationFromMsg :: "udpMsg \<Rightarrow> string list \<Rightarrow> location" where
  "locationFromMsg msg zones = \<lparr>loc_Point = pointFromMsg msg, loc_Zones = zones\<rparr>"

text \<open>Writing a metadata key only when the value is not empty.\<close>

definition put_nonempty :: "string \<Rightarrow> string \<Rightarrow> str_map \<Rightarrow> str_map" where
  "put_nonempty k v md = (if v \<noteq> '''' then fmupd k v md else md)"

definition actorMetadata :: "udpMsg \<Rightarrow> str_map" where
  "actorMetadata msg =
     (if TagName msg = '''' \<and> TagGroupName msg = '''' \<and> LocationType msg = ''''
         \<and> LocationMovementStatus msg = '''' then fmempty
      else put_nonempty ''movementStatus'' (LocationMovementStatus msg)
            (put_nonempty ''locationType'' (LocationType msg)
              (put_nonempty ''tagGroupName'' (TagGroupName msg)
                (put_nonempty ''tagName'' (TagName msg) fmempty))))"

text \<open>A nil metadata map and an empty one are the same finite map.\<close>

definition actorMetadataFromState :: "tagState \<Rightarrow> str_map" where
  "actorMetadataFromState st =
     put_nonempty ''locationType'' (lastLocationType st)
       (put_nonempty ''tagGroupName'' (groupName st)
         (put_nonempty ''tagName'' (name st) fmempty))"

definition eventID :: "string \<Rightarrow> gotime \<Rightarrow> int \<Rightarrow> string" where
  "eventID actorID ts seq =
     ''evt-'' @ actorID @ ''-'' @ dec_int (sint (time_UnixNano ts)) @ ''-'' @ dec_int seq"

definition zoneEvent :: "udpMsg \<Rightarrow> gotime \<Rightarrow> string list \<Rightarrow> int \<Rightarrow> event" where
  "zoneEvent msg now zones seq =
     \<lparr>ev_ID = eventID (TagID msg) now seq,
      ev_Type = EventTypeZone,
      ev_Actor = \<lparr>actor_ID = TagID msg, actor_Metadata = actorMetadata msg\<rparr>,
      ev_State = \<lparr>st_Location = Some (locationFromMsg msg zones),
                  st_Presence = \<lparr>pres_Type = PresenceTypeActive, pres_Since = now\<rparr>,
                  st_Command = None\<rparr>,
      ev_Timestamp = now\<rparr>"

definition presenceEvent :: "udpMsg \<Rightarrow> gotime \<Rightarrow> string list \<Rightarrow> presence_type \<Rightarrow> int \<Rightarrow> event" where
  "presenceEvent msg now zones pt seq =
     \<lparr>ev_ID = eventID (TagID msg) now seq,
      ev_Type = EventTypePresence,
      ev_Actor = \<lparr>actor_ID = TagID msg, actor_Metadata = actorMetadata msg\<rparr>,
      ev_State = \<lparr>st_Location = Some \<lparr>loc_Point = None, loc_Zones = zones\<rparr>,
                  st_Presence = \<lparr>pres_Type = pt, pres_Since = now\<rparr>,
                  st_Command = None\<rparr>,
      ev_Timestamp = now\<rparr>"

section \<open>derive.go: deriveEvents\<close>

definition hadHistory :: "tagState \<Rightarrow> bool" where
  "hadHistory prev = (\<not> time_is_zero (lastPacketTS prev) \<or> lastLocationType prev \<noteq> '''')"

text \<open>Section 1: TAG_ONLINE. The events so far are paired with the next sequence number.\<close>

definition tag_online :: "tagState \<Rightarrow> udpMsg \<Rightarrow> gotime \<Rightarrow> event list \<times> int" where
  "tag_online prev msg now =
     (if hadHistory prev \<and> \<not> online prev
      then ([presenceEvent msg now (lastZoneIds prev) PresenceTypeActive 0], 1)
      else ([], 0))"

text \<open>Section 2: LOCATION_LOST and LOCATION_RESTORED, with the new \<open>locationLostAt\<close>.\<close>

definition location_change ::
  "tagState \<Rightarrow> udpMsg \<Rightarrow> gotime \<Rightarrow> event list \<times> int \<Rightarrow> event list \<times> int \<times> gotime" where
  "location_change prev msg now acc =
     (let (out, seq) = acc;
          prevZones = lastZoneIds prev;
          currZones = normaliseZones (LocationZoneIds msg);
          prevHasLocation = isLocationType (lastLocationType prev);
          currHasLocation = isLocationType (LocationType msg)
      in if hadHistory prev \<and> prevHasLocation \<and> \<not> currHasLocation then
           let (out', seq') = (if 0 < length prevZones
                               then (out @ [zoneEvent msg now [] seq], seq + 1)
                               else (out, seq))
           in (out' @ [presenceEvent msg now prevZones PresenceTypeInactive seq'], seq' + 1, now)
         else if hadHistory prev \<and> \<not> prevHasLocation \<and> currHasLocation then
           (out @ [presenceEvent msg now currZones PresenceTypeActive seq], seq + 1, time_zero)
         else (out, seq, locationLostAt prev))"

text \<open>Section 3: the zone snapshot.\<close>

definition zone_snapshot ::
  "tagState \<Rightarrow> udpMsg \<Rightarrow> gotime \<Rightarrow> event list \<times> int \<Rightarrow> event list" where
  "zone_snapshot prev msg now acc =
     (let (out, seq) = acc;
          prevZones = lastZoneIds prev;
          currZones = normaliseZones (LocationZoneIds msg);
          zoneChanged = (\<not> zonesEqual currZones prevZones);
          stateChanged = (LocationType msg \<noteq> lastLocationType prev
                          \<or> LocationMovementStatus msg \<noteq> lastMovementStatus prev);
          hasZoneContext = (0 < length currZones \<or> 0 < length prevZones)
      in if isLocationType (LocationType msg)
            \<and> ((hadHistory prev \<and> hasZoneContext \<and> (zoneChanged \<or> stateChanged))
               \<or> (\<not> hadHistory prev \<and> 0 < length currZones))
         then out @ [zoneEvent msg now currZones seq] else out)"

text \<open>Section 4: the state for the next packet.\<close>

definition update_state :: "tagState \<Rightarrow> udpMsg \<Rightarrow> gotime \<Rightarrow> gotime \<Rightarrow> tagState" where
  "update_state prev msg now lostAt =
     (let st = prev\<lparr>locationLostAt := lostAt, online := True, lastResponseTS := now,
                    lastPacketTS := time_UnixMilli (LastPacketTS msg),
                    lastLocationType := LocationType msg,
                    lastZoneIds := normaliseZones (LocationZoneIds msg)\<rparr>;
          st1 = (case Location msg of
                   Some l \<Rightarrow> if isLocationType (LocationType msg)
                             then st\<lparr>lastKnownLocation := l,
                                     lastKnownLocationTS := time_UnixMilli (LocationTS msg)\<rparr>
                             else st
                 | None \<Rightarrow> st);
          st2 = st1\<lparr>lastMovementStatus := LocationMovementStatus msg\<rparr>;
          st3 = (if TagName msg \<noteq> '''' then st2\<lparr>name := TagName msg\<rparr> else st2)
      in if TagGroupName msg \<noteq> '''' then st3\<lparr>groupName := TagGroupName msg\<rparr> else st3)"

definition deriveEvents :: "tagState \<Rightarrow> udpMsg \<Rightarrow> gotime \<Rightarrow> event list \<times> tagState" where
  "deriveEvents prev msg now =
     (let (out2, seq2, lostAt) = location_change prev msg now (tag_online prev msg now)
      in (zone_snapshot prev msg now (out2, seq2), update_state prev msg now lostAt))"

section \<open>derive.go: runWatchdog\<close>

text \<open>
  The sweep visits the tags in the order of Go's map iteration, which is not
  specified: the order is the argument \<open>ids\<close>. The callback is \<open>emit\<close>, over a state
  \<open>'w\<close> of the caller's.
\<close>

definition watchdogEvent :: "string \<Rightarrow> tagState \<Rightarrow> gotime \<Rightarrow> event" where
  "watchdogEvent tagID st now =
     \<lparr>ev_ID = eventID tagID now 0,
      ev_Type = EventTypePresence,
      ev_Actor = \<lparr>actor_ID = tagID, actor_Metadata = actorMetadataFromState st\<rparr>,
      ev_State = \<lparr>st_Location = Some \<lparr>loc_Point = pointFromSlice (lastKnownLocation st),
                                      loc_Zones = lastZoneIds st\<rparr>,
                  st_Presence = \<lparr>pres_Type = PresenceTypeInactive, pres_Since = now\<rparr>,
                  st_Command = None\<rparr>,
      ev_Timestamp = now\<rparr>"

type_synonym tag_states = "string \<rightharpoonup> tagState"
type_synonym 'w emit = "event \<Rightarrow> 'w \<Rightarrow> go_error option \<times> 'w"

definition watchdog_skips :: "tagState \<Rightarrow> gotime \<Rightarrow> bool" where
  "watchdog_skips st now =
     (if \<not> online st then True
      else if \<not> time_is_zero (locationLostAt st) then True
      else if time_Sub now (lastPacketTS st) < OfflineThreshold then True
      else False)"

fun runWatchdog ::
  "string list \<Rightarrow> tag_states \<Rightarrow> gotime \<Rightarrow> 'w emit \<Rightarrow> 'w \<Rightarrow> go_error option \<times> tag_states \<times> 'w" where
  "runWatchdog [] states now emit w = (None, states, w)"
| "runWatchdog (tagID # ids) states now emit w =
     (case states tagID of
        None \<Rightarrow> runWatchdog ids states now emit w
      | Some st \<Rightarrow>
          if watchdog_skips st now then runWatchdog ids states now emit w
          else
            (case emit (watchdogEvent tagID st now) w of
               (Some err, w') \<Rightarrow> (Some err, states, w')
             | (None, w') \<Rightarrow>
                 runWatchdog ids (states(tagID \<mapsto> st\<lparr>online := False\<rparr>)) now emit w'))"

lemmas derive_defs = deriveEvents_def tag_online_def location_change_def zone_snapshot_def
  update_state_def
lemmas event_defs = zoneEvent_def presenceEvent_def watchdogEvent_def locationFromMsg_def

end
