(* ===== verification/Simulator.thy ===== *)
theory Simulator
  imports Parser GoNum
begin

text \<open>
  The datagrams of \<open>cmd/quuppa-simulator/main.go\<close>: the struct it marshals and the two
  constructors. Each constructor reads the wall clock twice, so the two readings are
  the arguments \<open>t\<close> and \<open>u\<close>.
\<close>

record datagram =
  dg_TagID :: string
  dg_ResponseTS :: int64
  dg_LastPacketTS :: int64
  dg_LocationType :: string
  dg_LocationZoneIds :: "string list option"
  dg_Location :: "float64 list"
  dg_LocationMovementStatus :: string

text \<open>The verb \<open>%04d\<close> on a natural number: at least four digits.\<close>

definition pad4 :: "nat \<Rightarrow> string" where
  "pad4 n = (let s = dec_nat n in replicate (4 - length s) CHR ''0'' @ s)"

definition tagID :: "nat \<Rightarrow> string" where
  "tagID i = ''aabbccdd'' @ pad4 i"

text \<open>The literals 1.5, 2.3 and 0.0 as IEEE-754 bit patterns.\<close>

definition sim_location :: "float64 list" where
  "sim_location = [0x3ff8000000000000, 0x4002666666666666, 0]"

definition positionPkt :: "string \<Rightarrow> string list \<Rightarrow> int64 \<Rightarrow> int64 \<Rightarrow> datagram" where
  "positionPkt tid zones t u =
     \<lparr>dg_TagID = tid, dg_ResponseTS = t, dg_LastPacketTS = u,
      dg_LocationType = ''position'', dg_LocationZoneIds = Some zones,
      dg_Location = sim_location, dg_LocationMovementStatus = ''moving''\<rparr>"

definition noLocationPkt :: "string \<Rightarrow> int64 \<Rightarrow> int64 \<Rightarrow> datagram" where
  "noLocationPkt tid t u =
     \<lparr>dg_TagID = tid, dg_ResponseTS = t, dg_LastPacketTS = u,
      dg_LocationType = ''noLocation'', dg_LocationZoneIds = None,
      dg_Location = [], dg_LocationMovementStatus = ''''\<rparr>"

text \<open>
  What the adapter's decoder reads from the JSON of a datagram: the fields have the
  same JSON names in both structs, an empty location is omitted, the pointer to an empty
  (then nil) zone slice is sent as null, and the fields the simulator does not send
  are zero.
\<close>

definition received :: "datagram \<Rightarrow> udpMsg" where
  "received d =
     \<lparr>TagID = dg_TagID d, TagName = '''', TagGroupName = '''', ResponseTS = dg_ResponseTS d,
      LastPacketTS = dg_LastPacketTS d, LastSeenTS = 0, LocationTS = 0,
      Location = (if dg_Location d = [] then None else Some (dg_Location d)),
      LocationType = dg_LocationType d, LocationMovementStatus = dg_LocationMovementStatus d,
      LocationZoneIds = (if dg_LocationZoneIds d = Some [] then None else dg_LocationZoneIds d),
      RSSILocatorCount = 0\<rparr>"

definition sim_unmarshal :: "datagram \<Rightarrow> string + udpMsg" where
  "sim_unmarshal d = Inr (received d)"

lemmas sim_defs [go_defs] = positionPkt_def noLocationPkt_def received_def sim_unmarshal_def

lemma parse_position [simp]:
  "tid \<noteq> '''' \<Longrightarrow> 0 < sint t \<Longrightarrow>
    parseDatagram sim_unmarshal (positionPkt tid zs t u) = Inr (received (positionPkt tid zs t u))"
  by (simp add: parseDatagram_def go_defs)

lemma parse_noLocation [simp]:
  "tid \<noteq> '''' \<Longrightarrow> 0 < sint t \<Longrightarrow>
    parseDatagram sim_unmarshal (noLocationPkt tid t u) = Inr (received (noLocationPkt tid t u))"
  by (simp add: parseDatagram_def go_defs)

lemma received_position [simp]:
  "TagID (received (positionPkt tid zs t u)) = tid"
  "LocationType (received (positionPkt tid zs t u)) = ''position''"
  "LocationZoneIds (received (positionPkt tid zs t u)) = (if zs = [] then None else Some zs)"
  "LocationMovementStatus (received (positionPkt tid zs t u)) = ''moving''"
  "ResponseTS (received (positionPkt tid zs t u)) = t"
  "LastPacketTS (received (positionPkt tid zs t u)) = u"
  by (simp_all add: go_defs)

lemma received_noLocation [simp]:
  "TagID (received (noLocationPkt tid t u)) = tid"
  "LocationType (received (noLocationPkt tid t u)) = ''noLocation''"
  "LocationZoneIds (received (noLocationPkt tid t u)) = None"
  "LocationMovementStatus (received (noLocationPkt tid t u)) = ''''"
  "ResponseTS (received (noLocationPkt tid t u)) = t"
  "LastPacketTS (received (noLocationPkt tid t u)) = u"
  by (simp_all add: go_defs)

end
