(* ===== verification/TagEvents.thy ===== *)
theory TagEvents
  imports Derive Simulator
begin

text \<open>
  What one call of \<open>deriveEvents\<close> or \<open>runWatchdog\<close> does: which events it emits, how
  they are numbered and what state it leaves. The facts about whole runs are in the
  theory of the tag view.
\<close>

section \<open>Zone comparison\<close>

lemma zones_outer_iff: "zones_outer a b \<longleftrightarrow> set a \<subseteq> set b"
  by (induction a) auto

lemma zonesEqual_iff: "zonesEqual a b \<longleftrightarrow> length a = length b \<and> set a \<subseteq> set b"
  by (simp add: zonesEqual_def zones_outer_iff)

lemma zonesEqual_refl [simp]: "zonesEqual a a"
  by (simp add: zonesEqual_iff)

lemma zonesEqual_Nil [simp]: "zonesEqual [] b \<longleftrightarrow> b = []" "zonesEqual a [] \<longleftrightarrow> a = []"
  by (auto simp: zonesEqual_iff)

lemma zonesEqual_set: "distinct a \<Longrightarrow> zonesEqual a b \<Longrightarrow> set a = set b"
  by (auto simp: zonesEqual_iff intro: distinct_subset_length_eq [THEN equalityD1, THEN subsetD]
      distinct_subset_length_eq [THEN equalityD2, THEN subsetD])

lemma zonesEqual_distinct_iff:
  assumes "distinct a" and "distinct b"
  shows "zonesEqual a b \<longleftrightarrow> set a = set b"
proof
  assume "set a = set b"
  then have "length a = length b" using assms by (metis distinct_card)
  with \<open>set a = set b\<close> show "zonesEqual a b" by (simp add: zonesEqual_iff)
qed (rule zonesEqual_set [OF assms(1)])

section \<open>The fields of an event\<close>

lemma event_fields [simp]:
  "ev_ID (zoneEvent msg now zs seq) = eventID (TagID msg) now seq"
  "ev_Type (zoneEvent msg now zs seq) = EventTypeZone"
  "actor_ID (ev_Actor (zoneEvent msg now zs seq)) = TagID msg"
  "ev_Timestamp (zoneEvent msg now zs seq) = now"
  "ev_zones (zoneEvent msg now zs seq) = zs"
  "ev_presence (zoneEvent msg now zs seq) = PresenceTypeActive"
  "ev_ID (presenceEvent msg now zs pt seq) = eventID (TagID msg) now seq"
  "ev_Type (presenceEvent msg now zs pt seq) = EventTypePresence"
  "actor_ID (ev_Actor (presenceEvent msg now zs pt seq)) = TagID msg"
  "ev_Timestamp (presenceEvent msg now zs pt seq) = now"
  "ev_zones (presenceEvent msg now zs pt seq) = zs"
  "ev_presence (presenceEvent msg now zs pt seq) = pt"
  "ev_ID (watchdogEvent a st now) = eventID a now 0"
  "ev_Type (watchdogEvent a st now) = EventTypePresence"
  "actor_ID (ev_Actor (watchdogEvent a st now)) = a"
  "ev_Timestamp (watchdogEvent a st now) = now"
  "ev_zones (watchdogEvent a st now) = lastZoneIds st"
  "ev_presence (watchdogEvent a st now) = PresenceTypeInactive"
  by (simp_all add: event_defs ev_zones_def ev_presence_def)

section \<open>The state after a packet\<close>

lemma update_state_fields [simp]:
  "online (update_state prev msg now lostAt)"
  "lastPacketTS (update_state prev msg now lostAt) = time_UnixMilli (LastPacketTS msg)"
  "lastResponseTS (update_state prev msg now lostAt) = now"
  "lastLocationType (update_state prev msg now lostAt) = LocationType msg"
  "lastZoneIds (update_state prev msg now lostAt) = normaliseZones (LocationZoneIds msg)"
  "lastMovementStatus (update_state prev msg now lostAt) = LocationMovementStatus msg"
  "locationLostAt (update_state prev msg now lostAt) = lostAt"
  by (simp_all add: update_state_def Let_def split: option.split)

text \<open>A tag that has been seen has a location type, so it has a history.\<close>

lemma hadHistory_seen: "lastLocationType prev \<noteq> '''' \<Longrightarrow> hadHistory prev"
  by (simp add: hadHistory_def)

lemma hadHistory_new [simp]: "\<not> hadHistory new_tagState"
  by (simp add: hadHistory_def new_tagState_def time_is_zero_def)

section \<open>The transitions, one lemma per case of the code\<close>

abbreviation curr_zones :: "udpMsg \<Rightarrow> string list" where
  "curr_zones msg \<equiv> normaliseZones (LocationZoneIds msg)"

text \<open>The TAG_ONLINE event that opens the list when the tag was flagged offline.\<close>

definition online_prefix :: "tagState \<Rightarrow> udpMsg \<Rightarrow> gotime \<Rightarrow> event list" where
  "online_prefix prev msg now =
     (if online prev then [] else [presenceEvent msg now (lastZoneIds prev) PresenceTypeActive 0])"

definition online_count :: "tagState \<Rightarrow> int" where
  "online_count prev = (if online prev then 0 else 1)"

lemma length_online_prefix: "int (length (online_prefix prev msg now)) = online_count prev"
  by (simp add: online_prefix_def online_count_def)

lemma derive_first:
  assumes "\<not> hadHistory prev"
  shows "deriveEvents prev msg now =
     (if isLocationType (LocationType msg) \<and> curr_zones msg \<noteq> []
      then [zoneEvent msg now (curr_zones msg) 0] else [],
      update_state prev msg now (locationLostAt prev))"
  using assms
  by (simp add: deriveEvents_def tag_online_def location_change_def zone_snapshot_def Let_def)

lemma derive_lost:
  assumes "hadHistory prev" "isLocationType (lastLocationType prev)"
    "\<not> isLocationType (LocationType msg)"
  shows "deriveEvents prev msg now =
    (let n = online_count prev in
      (online_prefix prev msg now @
        (if lastZoneIds prev = []
         then [presenceEvent msg now (lastZoneIds prev) PresenceTypeInactive n]
         else [zoneEvent msg now [] n,
               presenceEvent msg now (lastZoneIds prev) PresenceTypeInactive (n + 1)]),
       update_state prev msg now now))"
  using assms
  by (simp add: deriveEvents_def tag_online_def location_change_def zone_snapshot_def Let_def
      online_prefix_def online_count_def)

lemma derive_restored:
  assumes "hadHistory prev" "\<not> isLocationType (lastLocationType prev)"
    "isLocationType (LocationType msg)"
  shows "deriveEvents prev msg now =
    (let n = online_count prev in
      (online_prefix prev msg now @
        [presenceEvent msg now (curr_zones msg) PresenceTypeActive n] @
        (if curr_zones msg = [] \<and> lastZoneIds prev = [] then []
         else [zoneEvent msg now (curr_zones msg) (n + 1)]),
       update_state prev msg now time_zero))"
  using assms
  by (auto simp: deriveEvents_def tag_online_def location_change_def zone_snapshot_def Let_def
      online_prefix_def online_count_def)

lemma derive_tracked:
  assumes "hadHistory prev" "isLocationType (lastLocationType prev)"
    "isLocationType (LocationType msg)"
  shows "deriveEvents prev msg now =
    (online_prefix prev msg now @
       (if zonesEqual (curr_zones msg) (lastZoneIds prev)
           \<and> (curr_zones msg = [] \<or> LocationMovementStatus msg = lastMovementStatus prev)
        then [] else [zoneEvent msg now (curr_zones msg) (online_count prev)]),
     update_state prev msg now (locationLostAt prev))"
  using assms
  by (auto simp: deriveEvents_def tag_online_def location_change_def zone_snapshot_def Let_def
      online_prefix_def online_count_def isLocationType_def)

lemma derive_untracked:
  assumes "hadHistory prev" "\<not> isLocationType (lastLocationType prev)"
    "\<not> isLocationType (LocationType msg)"
  shows "deriveEvents prev msg now =
    (online_prefix prev msg now, update_state prev msg now (locationLostAt prev))"
  using assms
  by (auto simp: deriveEvents_def tag_online_def location_change_def zone_snapshot_def Let_def
      online_prefix_def)

lemmas derive_cases = derive_lost derive_restored derive_tracked derive_untracked

section \<open>Numbering\<close>

text \<open>The identifiers of a packet's events carry the positions in its list, from 0.\<close>

definition numbered :: "string \<Rightarrow> gotime \<Rightarrow> event list \<Rightarrow> bool" where
  "numbered a now evs = (map ev_ID evs = map (\<lambda>i. eventID a now (int i)) [0..<length evs])"

lemma numbered_Nil [simp]: "numbered a now []"
  by (simp add: numbered_def)

lemma numbered_snoc [simp]:
  "numbered a now (evs @ [e]) \<longleftrightarrow> numbered a now evs \<and> ev_ID e = eventID a now (int (length evs))"
  by (auto simp: numbered_def)

lemma numbered_single [simp]: "numbered a now [e] \<longleftrightarrow> ev_ID e = eventID a now 0"
  using numbered_snoc [of a now "[]" e] by simp

lemma numbered_two [simp]:
  "numbered a now [e, f] \<longleftrightarrow> ev_ID e = eventID a now 0 \<and> ev_ID f = eventID a now 1"
  using numbered_snoc [of a now "[e]" f] by simp

lemma numbered_three [simp]:
  "numbered a now [e, f, g] \<longleftrightarrow>
     ev_ID e = eventID a now 0 \<and> ev_ID f = eventID a now 1 \<and> ev_ID g = eventID a now 2"
  using numbered_snoc [of a now "[e, f]" g] by simp

text \<open>A case split over what the previous and the current packet say, for all four.\<close>

lemma derive_split [case_names first lost restored tracked untracked]:
  assumes "\<not> hadHistory prev \<Longrightarrow> P"
    and "hadHistory prev \<Longrightarrow> isLocationType (lastLocationType prev) \<Longrightarrow>
         \<not> isLocationType (LocationType msg) \<Longrightarrow> P"
    and "hadHistory prev \<Longrightarrow> \<not> isLocationType (lastLocationType prev) \<Longrightarrow>
         isLocationType (LocationType msg) \<Longrightarrow> P"
    and "hadHistory prev \<Longrightarrow> isLocationType (lastLocationType prev) \<Longrightarrow>
         isLocationType (LocationType msg) \<Longrightarrow> P"
    and "hadHistory prev \<Longrightarrow> \<not> isLocationType (lastLocationType prev) \<Longrightarrow>
         \<not> isLocationType (LocationType msg) \<Longrightarrow> P"
  shows P
  using assms by blast

lemma derive_shape:
  "numbered (TagID msg) now (fst (deriveEvents prev msg now))
   \<and> length (fst (deriveEvents prev msg now)) \<le> 3
   \<and> (\<forall>e \<in> set (fst (deriveEvents prev msg now)). ev_actor e = TagID msg \<and> ev_Timestamp e = now)"
proof (cases rule: derive_split [where prev = prev and msg = msg])
  case first
  then show ?thesis by (simp add: derive_first)
next
  case lost
  then show ?thesis
    by (simp add: derive_lost Let_def online_prefix_def online_count_def)
next
  case restored
  then show ?thesis
    by (simp add: derive_restored Let_def online_prefix_def online_count_def)
next
  case tracked
  then show ?thesis
    by (simp add: derive_tracked Let_def online_prefix_def online_count_def)
next
  case untracked
  then show ?thesis
    by (simp add: derive_untracked online_prefix_def)
qed

text \<open>The state left by a packet does not depend on the case but for \<open>locationLostAt\<close>.\<close>

lemma derive_state:
  "\<exists>lostAt. snd (deriveEvents prev msg now) = update_state prev msg now lostAt"
  by (auto simp: deriveEvents_def split: prod.split)

lemma derive_state_fields [simp]:
  "online (snd (deriveEvents prev msg now))"
  "lastPacketTS (snd (deriveEvents prev msg now)) = time_UnixMilli (LastPacketTS msg)"
  "lastLocationType (snd (deriveEvents prev msg now)) = LocationType msg"
  "lastZoneIds (snd (deriveEvents prev msg now)) = curr_zones msg"
  "lastMovementStatus (snd (deriveEvents prev msg now)) = LocationMovementStatus msg"
  using derive_state [of prev msg now] by (auto simp: deriveEvents_def split: prod.split)

section \<open>Identifiers\<close>

lemma dec_int_no_dash: "0 \<le> n \<Longrightarrow> CHR ''-'' \<notin> set (dec_int n)"
  by (auto simp: dec_int_def is_digit_def dest!: dec_nat_digits)

lemma dec_int_inject_nonneg: "0 \<le> m \<Longrightarrow> 0 \<le> n \<Longrightarrow> dec_int m = dec_int n \<longleftrightarrow> m = n"
  by (auto simp: dec_int_def)

lemma length_dec_int: "- (10 ^ k) < n \<Longrightarrow> n < 10 ^ k \<Longrightarrow> 0 < k \<Longrightarrow> length (dec_int n) \<le> k + 1"
  using length_dec_nat [of "nat \<bar>n\<bar>" k]
  by (auto simp: dec_int_def nat_less_iff abs_if intro: le_SucI split: if_splits)

text \<open>Two strings that end in a separator and separator-free text agree part by part.\<close>

lemma append_sep_inject:
  assumes "c \<notin> set ys" and "c \<notin> set vs"
  shows "xs @ c # ys = us @ c # vs \<longleftrightarrow> xs = us \<and> ys = vs"
proof
  assume eq: "xs @ c # ys = us @ c # vs"
  then consider zs where "xs = us @ zs" "zs @ c # ys = c # vs"
    | zs where "us = xs @ zs" "c # ys = zs @ c # vs"
    by (auto simp: append_eq_append_conv2)
  then show "xs = us \<and> ys = vs"
  proof cases
    case 1
    then show ?thesis using assms by (cases zs) auto
  next
    case 2
    then show ?thesis using assms by (cases zs) auto
  qed
qed simp

lemma eventID_inject:
  assumes "0 \<le> sint (time_UnixNano t)" "0 \<le> sint (time_UnixNano u)" "0 \<le> i" "0 \<le> j"
  shows "eventID a t i = eventID b u j \<longleftrightarrow> a = b \<and> time_UnixNano t = time_UnixNano u \<and> i = j"
proof -
  let ?n = "\<lambda>t. dec_int (sint (time_UnixNano t))"
  have "eventID a t i = eventID b u j \<longleftrightarrow>
      (a @ CHR ''-'' # ?n t) @ CHR ''-'' # dec_int i = (b @ CHR ''-'' # ?n u) @ CHR ''-'' # dec_int j"
    by (simp add: eventID_def)
  also have "\<dots> \<longleftrightarrow> a @ CHR ''-'' # ?n t = b @ CHR ''-'' # ?n u \<and> dec_int i = dec_int j"
    using assms by (intro append_sep_inject dec_int_no_dash)
  also have "\<dots> \<longleftrightarrow> (a = b \<and> ?n t = ?n u) \<and> dec_int i = dec_int j"
    using assms by (subst append_sep_inject) (simp_all add: dec_int_no_dash)
  finally show ?thesis
    using assms by (auto simp: dec_int_inject_nonneg signed_word_eqI)
qed

lemma eventID_seq_inject: "0 \<le> i \<Longrightarrow> 0 \<le> j \<Longrightarrow> eventID a t i = eventID a t j \<longleftrightarrow> i = j"
  by (simp add: eventID_def dec_int_inject_nonneg)

lemma UnixNano_UnixMilli:
  assumes "0 \<le> sint ms" and "sint ms \<le> 9223372036854"
  shows "sint (time_UnixNano (time_UnixMilli ms)) = sint ms * 1000000"
  unfolding time_UnixNano_def unix_ns_UnixMilli
  by (rule sint_word_of_int_small) (use assms in simp_all)

section \<open>Metadata\<close>

lemma map_get_put_nonempty:
  "fmlookup md k = None \<Longrightarrow> map_get (put_nonempty k v md) k' = (if k = k' then v else map_get md k')"
  by (auto simp: map_get_def put_nonempty_def)

lemma fmlookup_put_nonempty:
  "fmlookup (put_nonempty k v md) k' = (if k = k' \<and> v \<noteq> '''' then Some v else fmlookup md k')"
  by (simp add: put_nonempty_def)

section \<open>Properties\<close>

text \<open>
  The transition table of the tag state machine, as the type, presence and zones of
  the events in order: TAG_ONLINE first, then LOCATION_LOST (preceded by an empty zone
  snapshot when zones were occupied) or LOCATION_RESTORED, then the zone snapshot.
\<close>

definition event_summary :: "event \<Rightarrow> event_type \<times> presence_type \<times> string list" where
  "event_summary e = (ev_Type e, ev_presence e, ev_zones e)"

definition transition_table ::
  "tagState \<Rightarrow> udpMsg \<Rightarrow> (event_type \<times> presence_type \<times> string list) list" where
  "transition_table prev msg =
     (let pz = lastZoneIds prev; cz = curr_zones msg in
      (if online prev then [] else [(EventTypePresence, PresenceTypeActive, pz)]) @
      (case (lastLocationType prev = ''position'', LocationType msg = ''position'') of
         (True, False) \<Rightarrow>
           (if pz = [] then [] else [(EventTypeZone, PresenceTypeActive, [])]) @
           [(EventTypePresence, PresenceTypeInactive, pz)]
       | (False, True) \<Rightarrow>
           [(EventTypePresence, PresenceTypeActive, cz)] @
           (if cz = [] \<and> pz = [] then [] else [(EventTypeZone, PresenceTypeActive, cz)])
       | (True, True) \<Rightarrow>
           (if zonesEqual cz pz \<and> (cz = [] \<or> LocationMovementStatus msg = lastMovementStatus prev)
            then [] else [(EventTypeZone, PresenceTypeActive, cz)])
       | (False, False) \<Rightarrow> []))"

lemma event_summary_simps [simp]:
  "event_summary (zoneEvent msg now zs seq) = (EventTypeZone, PresenceTypeActive, zs)"
  "event_summary (presenceEvent msg now zs pt seq) = (EventTypePresence, pt, zs)"
  by (simp_all add: event_summary_def)

text \<open>
  C2: for a tag seen before, \<open>deriveEvents\<close> emits exactly the events of the transition
  table, in its order.
\<close>

theorem derive_transition_table:
  assumes "lastLocationType prev \<noteq> ''''"
  shows "map event_summary (fst (deriveEvents prev msg now)) = transition_table prev msg"
proof -
  note hist = hadHistory_seen [OF assms]
  show ?thesis
    by (cases rule: derive_split [where prev = prev and msg = msg])
      (use hist in \<open>auto simp: derive_cases transition_table_def online_prefix_def Let_def
         isLocationType_def\<close>)
qed

text \<open>An offline tag with a fix in one zone, for the concrete instances.\<close>

definition offline_in_zone :: tagState where
  "offline_in_zone = new_tagState\<lparr>lastLocationType := ''position'', lastZoneIds := [''pool'']\<rparr>"

lemma offline_in_zone_simps [simp]:
  "lastLocationType offline_in_zone = ''position''" "lastZoneIds offline_in_zone = [''pool'']"
  "\<not> online offline_in_zone" "lastMovementStatus offline_in_zone = ''''"
  by (simp_all add: offline_in_zone_def new_tagState_def)

theorem derive_transition_table_witness:
  "map event_summary
     (fst (deriveEvents offline_in_zone (received (noLocationPkt ''tag'' 2000 2000)) (GoTime 5)))
   = [(EventTypePresence, PresenceTypeActive, [''pool'']),
      (EventTypeZone, PresenceTypeActive, []),
      (EventTypePresence, PresenceTypeInactive, [''pool''])]"
  using derive_transition_table [of offline_in_zone "received (noLocationPkt ''tag'' 2000 2000)" "GoTime 5"]
  by (simp add: transition_table_def normaliseZones_def Let_def)

lemma derive_ids:
  "i < length (fst (deriveEvents prev msg now)) \<Longrightarrow>
     ev_ID (fst (deriveEvents prev msg now) ! i) = eventID (TagID msg) now (int i)"
proof -
  assume i: "i < length (fst (deriveEvents prev msg now))"
  have "map ev_ID (fst (deriveEvents prev msg now))
      = map (\<lambda>i. eventID (TagID msg) now (int i)) [0..<length (fst (deriveEvents prev msg now))]"
    using derive_shape [of msg now prev] by (simp add: numbered_def)
  from arg_cong [OF this, of "\<lambda>xs. xs ! i"] i show ?thesis by simp
qed

text \<open>
  The events of one datagram are at most three; they are about the datagram's tag,
  carry the event time of the datagram, and their identifiers are numbered from 0 in
  the order of the list, so that no two are the same.
\<close>

lemma derive_numbering:
  "let evs = fst (deriveEvents prev msg now) in
     length evs \<le> 3
     \<and> map ev_ID evs = map (\<lambda>i. eventID (TagID msg) now (int i)) [0..<length evs]
     \<and> distinct (map ev_ID evs)
     \<and> list_all (\<lambda>e. ev_actor e = TagID msg \<and> ev_Timestamp e = now) evs"
proof -
  let ?evs = "fst (deriveEvents prev msg now)"
  have ids: "map ev_ID ?evs = map (\<lambda>i. eventID (TagID msg) now (int i)) [0..<length ?evs]"
    using derive_shape [of msg now prev] by (simp add: numbered_def)
  then have "distinct (map ev_ID ?evs)"
    by (auto simp: distinct_map inj_on_def eventID_seq_inject)
  with ids derive_shape [of msg now prev] show ?thesis
    by (auto simp: Let_def list_all_iff)
qed

text \<open>
  A datagram that repeats the previous one's location type, movement status and
  zones emits no event, whatever its coordinates and timestamps.
\<close>

lemma derive_repeat_quiet:
  assumes "LocationType msg \<noteq> ''''"
    and "LocationType msg' = LocationType msg"
    and "LocationMovementStatus msg' = LocationMovementStatus msg"
    and "normaliseZones (LocationZoneIds msg') = normaliseZones (LocationZoneIds msg)"
  shows "fst (deriveEvents (snd (deriveEvents prev msg now)) msg' now') = []"
proof -
  let ?st = "snd (deriveEvents prev msg now)"
  have hist: "hadHistory ?st" using assms(1) by (simp add: hadHistory_seen)
  show ?thesis
  proof (cases "isLocationType (LocationType msg)")
    case True
    with assms hist show ?thesis by (simp add: derive_tracked online_prefix_def)
  next
    case False
    with assms hist show ?thesis by (simp add: derive_untracked online_prefix_def)
  qed
qed

text \<open>
  C39: the identifiers of the events that two datagrams derive, whatever the states of the tags:
  two of them are equal exactly when tag, responseTS and position in the list agree. So the
  events of one datagram have different identifiers, and so have those of different tags or
  times; but two datagrams of a tag with the same responseTS give different events the same
  identifiers. The times are those up to the year 2262, where \<open>UnixNano\<close> overflows.
\<close>

theorem eventID_collisions:
  assumes "0 < sint (ResponseTS m)" "sint (ResponseTS m) \<le> 9223372036854"
    and "0 < sint (ResponseTS m')" "sint (ResponseTS m') \<le> 9223372036854"
    and "evs = fst (deriveEvents prev m (time_UnixMilli (ResponseTS m)))"
    and "evs' = fst (deriveEvents prev' m' (time_UnixMilli (ResponseTS m')))"
    and "i < length evs" and "j < length evs'"
  shows "ev_ID (evs ! i) = ev_ID (evs' ! j) \<longleftrightarrow> TagID m = TagID m' \<and> ResponseTS m = ResponseTS m' \<and> i = j"
proof -
  have "time_UnixNano (time_UnixMilli (ResponseTS m)) = time_UnixNano (time_UnixMilli (ResponseTS m'))
      \<longleftrightarrow> sint (ResponseTS m) * 1000000 = sint (ResponseTS m') * 1000000"
    using assms(1-4) by (simp flip: UnixNano_UnixMilli add: sint_inject)
  then have nano: "time_UnixNano (time_UnixMilli (ResponseTS m)) = time_UnixNano (time_UnixMilli (ResponseTS m'))
      \<longleftrightarrow> ResponseTS m = ResponseTS m'"
    by (simp add: sint_inject)
  have "ev_ID (evs ! i) = eventID (TagID m) (time_UnixMilli (ResponseTS m)) (int i)"
    and "ev_ID (evs' ! j) = eventID (TagID m') (time_UnixMilli (ResponseTS m')) (int j)"
    using assms(5-8) derive_ids by simp_all
  with nano assms(1-4) show ?thesis
    by (simp add: eventID_inject UnixNano_UnixMilli)
qed

text \<open>A tag moves in and loses its location within a millisecond: two events, one identifier.\<close>

theorem eventID_collisions_witness:
  "let m = received (positionPkt ''tag'' [''pool''] 1000 1000); m' = received (noLocationPkt ''tag'' 1000 1000);
       (evs, st) = deriveEvents new_tagState m (time_UnixMilli 1000);
       (evs', st') = deriveEvents st m' (time_UnixMilli 1000)
   in ev_ID (evs ! 0) = ev_ID (evs' ! 0) \<and> evs ! 0 \<noteq> evs' ! 0 \<and> ev_ID (evs' ! 0) \<noteq> ev_ID (evs' ! 1)"
proof -
  let ?m = "received (positionPkt ''tag'' [''pool''] 1000 1000)" and ?m' = "received (noLocationPkt ''tag'' 1000 1000)"
  let ?t = "time_UnixMilli 1000"
  let ?st = "snd (deriveEvents new_tagState ?m ?t)"
  have evs: "fst (deriveEvents new_tagState ?m ?t) = [zoneEvent ?m ?t [''pool''] 0]"
    by (simp add: derive_first isLocationType_def normaliseZones_def)
  have "hadHistory ?st" by (simp add: hadHistory_seen)
  then have evs': "fst (deriveEvents ?st ?m' ?t) = [zoneEvent ?m' ?t [] 0, presenceEvent ?m' ?t [''pool''] PresenceTypeInactive 1]"
    by (simp add: derive_lost isLocationType_def normaliseZones_def online_prefix_def online_count_def Let_def)
  have "zoneEvent ?m ?t [''pool''] 0 \<noteq> zoneEvent ?m' ?t [] 0"
    by (simp add: zoneEvent_def locationFromMsg_def)
  with eventID_collisions [of ?m ?m' "fst (deriveEvents new_tagState ?m ?t)" new_tagState "fst (deriveEvents ?st ?m' ?t)" ?st 0 0]
    eventID_collisions [of ?m' ?m' "fst (deriveEvents ?st ?m' ?t)" ?st "fst (deriveEvents ?st ?m' ?t)" ?st 0 1]
  show ?thesis by (simp add: evs evs' case_prod_beta Let_def)
qed

text \<open>
  For a tag with a twelve-character identifier, every event identifier of a datagram
  or of the watchdog has between 3 and 64 characters, the bounds of the wire contract,
  at any time whatever.
\<close>

lemma eventID_length:
  assumes "length a = 12" and "0 \<le> seq" and "seq \<le> 2"
  shows "3 \<le> length (eventID a ts seq) \<and> length (eventID a ts seq) \<le> 64"
proof -
  have "length (dec_int (sint (time_UnixNano ts))) \<le> 19 + 1"
    using sint_ge [of "time_UnixNano ts"] sint_lt [of "time_UnixNano ts"]
    by (intro length_dec_int) simp_all
  moreover have "length (dec_int seq) \<le> 1 + 1" using assms by (intro length_dec_int) simp_all
  ultimately show ?thesis using assms(1) by (simp add: eventID_def)
qed

text \<open>
  On lists without repeated zones the zone comparison is equality of sets
  (\<open>zonesEqual_distinct_iff\<close>); with repetitions it is neither that nor symmetric.
\<close>

lemma zonesEqual_repeated:
  "zonesEqual [''x'', ''x''] [''x'', ''y'']" "\<not> zonesEqual [''x'', ''y''] [''x'', ''x'']"
  by (simp_all add: zonesEqual_def)

text \<open>
  The metadata of an event read back under its four keys is the datagram's tag name,
  group name, location type and movement status, and no key holds an empty value.
\<close>

lemma actorMetadata_fields:
  "map_get (actorMetadata msg) ''tagName'' = TagName msg
   \<and> map_get (actorMetadata msg) ''tagGroupName'' = TagGroupName msg
   \<and> map_get (actorMetadata msg) ''locationType'' = LocationType msg
   \<and> map_get (actorMetadata msg) ''movementStatus'' = LocationMovementStatus msg
   \<and> fmlookup (actorMetadata msg) k \<noteq> Some ''''"
  by (simp add: actorMetadata_def map_get_put_nonempty fmlookup_put_nonempty)

end
