(* ===== verification/Adapter.thy ===== *)
theory Adapter
  imports TagEvents Machine
begin

text \<open>
  \<open>internal/adapters/quuppa/adapter.go\<close>: the read loop of \<open>Adapter.Run\<close>, its bounded
  channel and its emit goroutine. The socket, the clock and the JSON decoder are
  inputs: a read of the loop is a packet with the clock's reading, an expired
  deadline with the clock's reading and the order in which the map was iterated, or
  another error.
\<close>

section \<open>Constants\<close>

definition readBufSize :: nat where "readBufSize = 4096"
definition emitChanSize :: nat where "emitChanSize = 1024"

section \<open>One read of the loop\<close>

datatype 'b read =
    ReadPacket 'b gotime
  | ReadDeadline "string list" gotime
  | ReadError go_error

text \<open>The state of a tag, allocated on first sight.\<close>

definition tag_state :: "tag_states \<Rightarrow> string \<Rightarrow> tagState" where
  "tag_state states a = (case states a of None \<Rightarrow> new_tagState | Some st \<Rightarrow> st)"

text \<open>A datagram: parse, look the tag up, choose the event time, derive. A malformed one is skipped.\<close>

definition handle_datagram ::
  "('b \<Rightarrow> string + udpMsg) \<Rightarrow> tag_states \<Rightarrow> 'b \<Rightarrow> gotime \<Rightarrow> event list \<times> tag_states" where
  "handle_datagram unmarshal states b clk_now =
     (case parseDatagram unmarshal b of
        Inl reason \<Rightarrow> ([], states)
      | Inr msg \<Rightarrow>
          let st = tag_state states (TagID msg);
              now0 = time_UnixMilli (ResponseTS msg);
              now = (if time_is_zero now0 then clk_now else now0);
              (evs, st') = deriveEvents st msg now
          in (evs, states(TagID msg \<mapsto> st')))"

text \<open>The callback the loop gives the watchdog: hand the event to \<open>send\<close>, never fail.\<close>

definition collect :: "event list emit" where
  "collect ev w = (None, w @ [ev])"

text \<open>The events one read produces, in the order they are handed to \<open>send\<close>, and the new states.\<close>

fun loop_read ::
  "('b \<Rightarrow> string + udpMsg) \<Rightarrow> tag_states \<Rightarrow> 'b read \<Rightarrow> event list \<times> tag_states" where
  "loop_read unmarshal states (ReadPacket b clk_now) = handle_datagram unmarshal states b clk_now"
| "loop_read unmarshal states (ReadDeadline ids now) =
     (case runWatchdog ids states now collect [] of (_, states', evs) \<Rightarrow> (evs, states'))"
| "loop_read unmarshal states (ReadError err) = ([], states)"

section \<open>The watchdog's sweep\<close>

text \<open>What a sweep does to one tag.\<close>

definition sweep_tag :: "gotime \<Rightarrow> tagState \<Rightarrow> tagState" where
  "sweep_tag now st = (if watchdog_skips st now then st else st\<lparr>online := False\<rparr>)"

definition flagged :: "tag_states \<Rightarrow> gotime \<Rightarrow> string \<Rightarrow> bool" where
  "flagged states now a = (case states a of None \<Rightarrow> False | Some st \<Rightarrow> \<not> watchdog_skips st now)"

lemma runWatchdog_collect:
  assumes "distinct ids"
  shows "runWatchdog ids states now collect w =
    (None,
     (\<lambda>a. if a \<in> set ids then map_option (sweep_tag now) (states a) else states a),
     w @ map (\<lambda>a. watchdogEvent a (the (states a)) now) (filter (flagged states now) ids))"
  using assms
proof (induction ids arbitrary: states w)
  case Nil
  then show ?case by simp
next
  case (Cons a ids)
  show ?case
  proof (cases "flagged states now a")
    case True
    then obtain st where st: "states a = Some st" "\<not> watchdog_skips st now"
      by (auto simp: flagged_def split: option.splits)
    let ?s' = "states(a \<mapsto> st\<lparr>online := False\<rparr>)"
    have flag: "filter (flagged ?s' now) ids = filter (flagged states now) ids"
      using Cons.prems by (intro filter_cong) (auto simp: flagged_def)
    have evs: "map (\<lambda>a. watchdogEvent a (the (?s' a)) now) (filter (flagged states now) ids) =
        map (\<lambda>a. watchdogEvent a (the (states a)) now) (filter (flagged states now) ids)"
      using Cons.prems by auto
    have sts: "(\<lambda>b. if b \<in> set ids then map_option (sweep_tag now) (?s' b) else ?s' b) =
        (\<lambda>b. if b \<in> set (a # ids) then map_option (sweep_tag now) (states b) else states b)"
      using Cons.prems st by (auto simp: fun_eq_iff sweep_tag_def)
    have "runWatchdog (a # ids) states now collect w =
        runWatchdog ids ?s' now collect (w @ [watchdogEvent a st now])"
      using st by (simp add: collect_def)
    also have "\<dots> = (None,
        (\<lambda>b. if b \<in> set (a # ids) then map_option (sweep_tag now) (states b) else states b),
        w @ watchdogEvent a st now #
          map (\<lambda>a. watchdogEvent a (the (states a)) now) (filter (flagged states now) ids))"
      using Cons.prems
      by (subst Cons.IH) (simp_all only: distinct.simps flag evs sts append_assoc append.simps)
    finally show ?thesis using True st by simp
  next
    case False
    then have same: "map_option (sweep_tag now) (states a) = states a"
      by (auto simp: flagged_def sweep_tag_def split: option.splits)
    have "runWatchdog (a # ids) states now collect w = runWatchdog ids states now collect w"
      using False by (auto simp: flagged_def split: option.splits)
    then show ?thesis
      using False Cons same by (auto simp: fun_eq_iff)
  qed
qed

end
