(* ===== verification/TagView.thy ===== *)
theory TagView
  imports Adapter Simulator
begin

text \<open>
  What a consumer of the adapter's events knows about a tag after any run of reads,
  against what the datagrams said: the latest presence and the latest zone set of
  every tag, as an invariant of the read loop.
\<close>

section \<open>The consumer's view\<close>

definition last_presence :: "string \<Rightarrow> event list \<Rightarrow> presence_type option" where
  "last_presence a = last_such (\<lambda>e. ev_actor e = a \<and> ev_Type e = EventTypePresence) ev_presence"

definition last_zones :: "string \<Rightarrow> event list \<Rightarrow> string list option" where
  "last_zones a = last_such (\<lambda>e. ev_actor e = a \<and> ev_Type e = EventTypeZone) ev_zones"

text \<open>A tag without a zone event is in no zone.\<close>

definition shown_zones :: "string \<Rightarrow> event list \<Rightarrow> string list" where
  "shown_zones a evs = (case last_zones a evs of None \<Rightarrow> [] | Some zs \<Rightarrow> zs)"

lemmas view_defs = last_presence_def last_zones_def

lemma view_other:
  assumes "\<And>e. e \<in> set evs \<Longrightarrow> ev_actor e \<noteq> a"
  shows "last_presence a evs = None" and "last_zones a evs = None"
  using assms by (auto simp: view_defs intro!: last_such_None)

lemma view_append [simp]:
  "last_presence a (xs @ ys) = newer (last_presence a xs) (last_presence a ys)"
  "last_zones a (xs @ ys) = newer (last_zones a xs) (last_zones a ys)"
  by (simp_all add: view_defs)

section \<open>The messages a run of reads accepted\<close>

fun accepted :: "('b \<Rightarrow> string + udpMsg) \<Rightarrow> 'b read \<Rightarrow> udpMsg list" where
  "accepted unmarshal (ReadPacket b clk_now) =
     (case parseDatagram unmarshal b of Inl reason \<Rightarrow> [] | Inr msg \<Rightarrow> [msg])"
| "accepted unmarshal (ReadDeadline ids now) = []"
| "accepted unmarshal (ReadError err) = []"

definition last_msg :: "('b \<Rightarrow> string + udpMsg) \<Rightarrow> string \<Rightarrow> 'b read list \<Rightarrow> udpMsg option" where
  "last_msg unmarshal a reads =
     last_such (\<lambda>m. TagID m = a) (\<lambda>m. m) (concat (map (accepted unmarshal) reads))"

lemma last_msg_Nil [simp]: "last_msg unmarshal a [] = None"
  by (simp add: last_msg_def)

lemma last_msg_snoc [simp]:
  "last_msg unmarshal a (rs @ [r]) =
     newer (last_msg unmarshal a rs)
       (last_such (\<lambda>m. TagID m = a) (\<lambda>m. m) (accepted unmarshal r))"
  by (simp add: last_msg_def)

text \<open>
  The reads the environment may give: a packet names no zone twice, and a map is
  iterated without repetition.
\<close>

fun read_ok :: "('b \<Rightarrow> string + udpMsg) \<Rightarrow> 'b read \<Rightarrow> bool" where
  "read_ok unmarshal (ReadPacket b clk_now) =
     (case parseDatagram unmarshal b of Inl reason \<Rightarrow> True | Inr msg \<Rightarrow> distinct (curr_zones msg))"
| "read_ok unmarshal (ReadDeadline ids now) = distinct ids"
| "read_ok unmarshal (ReadError err) = True"

section \<open>The invariant of one tag\<close>

text \<open>
  \<open>p\<close> is the last presence shown, \<open>zs\<close> the zones shown. A tag flagged offline, or
  whose location is lost, is shown inactive; a tag that is online with a position fix
  is not; and the zones shown are those of the last fix, or none without one.
\<close>

definition tag_inv :: "tagState \<Rightarrow> presence_type option \<Rightarrow> string list \<Rightarrow> bool" where
  "tag_inv st p zs \<longleftrightarrow>
     lastLocationType st \<noteq> '''' \<and> distinct (lastZoneIds st)
     \<and> (\<not> online st \<longrightarrow> p = Some PresenceTypeInactive \<and> time_is_zero (locationLostAt st))
     \<and> (\<not> time_is_zero (locationLostAt st) \<longrightarrow>
          p = Some PresenceTypeInactive \<and> \<not> isLocationType (lastLocationType st))
     \<and> (online st \<and> isLocationType (lastLocationType st) \<longrightarrow> p \<noteq> Some PresenceTypeInactive)
     \<and> set zs = (if isLocationType (lastLocationType st) then set (lastZoneIds st) else {})"

lemma tag_inv_hadHistory: "tag_inv st p zs \<Longrightarrow> hadHistory st"
  by (simp add: tag_inv_def hadHistory_seen)

lemma tag_inv_sweep:
  assumes "tag_inv st p zs" and "\<not> watchdog_skips st now"
  shows "tag_inv (st\<lparr>online := False\<rparr>) (Some PresenceTypeInactive) zs"
  using assms by (auto simp: tag_inv_def watchdog_skips_def split: if_splits)

definition zones_or :: "string list \<Rightarrow> string list option \<Rightarrow> string list" where
  "zones_or zs new = (case new of None \<Rightarrow> zs | Some zs' \<Rightarrow> zs')"

lemma zones_or_simps [simp]: "zones_or zs None = zs" "zones_or zs (Some zs') = zs'"
  by (simp_all add: zones_or_def)

lemma shown_zones_append: "shown_zones a (xs @ ys) = zones_or (shown_zones a xs) (last_zones a ys)"
  by (auto simp: shown_zones_def newer_def zones_or_def split: option.split)

lemma tag_inv_first:
  assumes "wf_msg msg" and "distinct (curr_zones msg)"
  shows "tag_inv (snd (deriveEvents new_tagState msg now))
           (last_presence (TagID msg) (fst (deriveEvents new_tagState msg now)))
           (zones_or [] (last_zones (TagID msg) (fst (deriveEvents new_tagState msg now))))"
proof -
  have lost: "time_is_zero (locationLostAt new_tagState)"
    by (simp add: new_tagState_def time_is_zero_def)
  show ?thesis
    using assms wf_msgD(3) [OF assms(1)] lost
    by (simp add: derive_first tag_inv_def view_defs)
qed

lemma tag_inv_derive:
  assumes inv: "tag_inv prev p zs" and wf: "wf_msg msg" and dist: "distinct (curr_zones msg)"
    and now: "\<not> time_is_zero now"
  shows "tag_inv (snd (deriveEvents prev msg now))
           (newer p (last_presence (TagID msg) (fst (deriveEvents prev msg now))))
           (zones_or zs (last_zones (TagID msg) (fst (deriveEvents prev msg now))))"
proof -
  note hist = tag_inv_hadHistory [OF inv]
  note facts = inv wf_msgD(3) [OF wf] dist now hist
  show ?thesis
  proof (cases rule: derive_split [where prev = prev and msg = msg])
    case first
    with hist show ?thesis by simp
  next
    case lost
    with facts show ?thesis
      by (auto simp: derive_lost Let_def tag_inv_def view_defs online_prefix_def)
  next
    case restored
    with facts show ?thesis
      by (auto simp: derive_restored Let_def tag_inv_def view_defs online_prefix_def time_is_zero_def)
  next
    case tracked
    have "zonesEqual (curr_zones msg) (lastZoneIds prev) \<Longrightarrow> set (curr_zones msg) = set (lastZoneIds prev)"
      using dist by (rule zonesEqual_set)
    with tracked facts show ?thesis
      by (auto simp: derive_tracked tag_inv_def view_defs online_prefix_def)
  next
    case untracked
    with facts show ?thesis
      by (auto simp: derive_untracked tag_inv_def view_defs online_prefix_def)
  qed
qed

section \<open>The invariant of the read loop\<close>

text \<open>Every tag with a state agrees with its last accepted message and with the view of it.\<close>

definition tag_agrees ::
  "('b \<Rightarrow> string + udpMsg) \<Rightarrow> 'b read list \<Rightarrow> event list \<Rightarrow> tag_states \<Rightarrow> string \<Rightarrow> bool" where
  "tag_agrees unmarshal reads evs states a \<longleftrightarrow>
     (case states a of
        None \<Rightarrow> last_msg unmarshal a reads = None \<and> last_presence a evs = None \<and> last_zones a evs = None
      | Some st \<Rightarrow> \<exists>m. last_msg unmarshal a reads = Some m \<and> wf_msg m
            \<and> lastLocationType st = LocationType m \<and> lastZoneIds st = curr_zones m
            \<and> lastPacketTS st = time_UnixMilli (LastPacketTS m)
            \<and> tag_inv st (last_presence a evs) (shown_zones a evs))"

definition view_inv ::
  "('b \<Rightarrow> string + udpMsg) \<Rightarrow> 'b read list \<Rightarrow> event list \<Rightarrow> tag_states \<Rightarrow> bool" where
  "view_inv unmarshal reads evs states \<longleftrightarrow> (\<forall>a. tag_agrees unmarshal reads evs states a)"

lemma view_inv_start: "view_inv unmarshal [] [] Map.empty"
  by (simp add: view_inv_def tag_agrees_def view_defs)

lemma view_invD: "view_inv unmarshal reads evs states \<Longrightarrow> tag_agrees unmarshal reads evs states a"
  by (simp add: view_inv_def)

text \<open>A step that leaves a tag's state, messages and view alone keeps the tag's agreement.\<close>

lemma tag_agrees_frame:
  assumes "tag_agrees unmarshal reads evs states a"
    and "states' a = states a" and "last_msg unmarshal a reads' = last_msg unmarshal a reads"
    and "last_presence a evs' = last_presence a evs" and "last_zones a evs' = last_zones a evs"
  shows "tag_agrees unmarshal reads' evs' states' a"
proof -
  have "shown_zones a evs' = shown_zones a evs" using assms(5) by (simp add: shown_zones_def)
  with assms show ?thesis by (cases "states a") (simp_all add: tag_agrees_def)
qed

text \<open>The event time the loop chooses is the message's own: the fallback is never taken.\<close>

lemma handle_datagram_accepted:
  assumes "parseDatagram unmarshal b = Inr msg"
  shows "handle_datagram unmarshal states b clk_now =
    (let (evs, st') = deriveEvents (tag_state states (TagID msg)) msg (time_UnixMilli (ResponseTS msg))
     in (evs, states(TagID msg \<mapsto> st')))"
proof -
  have "\<not> time_is_zero (time_UnixMilli (ResponseTS msg))"
    using wf_msgD(2) [OF parseDatagram_wf [OF assms]] by (simp add: time_UnixMilli_nonzero)
  with assms show ?thesis by (simp add: handle_datagram_def Let_def)
qed

lemma view_inv_packet:
  assumes inv: "view_inv unmarshal reads evs states" and ok: "read_ok unmarshal (ReadPacket b clk)"
  shows "view_inv unmarshal (reads @ [ReadPacket b clk])
    (evs @ fst (handle_datagram unmarshal states b clk)) (snd (handle_datagram unmarshal states b clk))"
proof (cases "parseDatagram unmarshal b")
  case (Inl reason)
  with inv show ?thesis
    by (auto simp: view_inv_def handle_datagram_def intro: tag_agrees_frame)
next
  case (Inr msg)
  note wf = parseDatagram_wf [OF Inr]
  let ?a = "TagID msg" and ?now = "time_UnixMilli (ResponseTS msg)"
  let ?d = "deriveEvents (tag_state states ?a) msg ?now"
  have now: "\<not> time_is_zero ?now" using wf_msgD(2) [OF wf] by (simp add: time_UnixMilli_nonzero)
  have dist: "distinct (curr_zones msg)" using ok Inr by simp
  have own: "ev_actor e = ?a" if "e \<in> set (fst ?d)" for e
    using derive_shape [of msg ?now "tag_state states ?a"] that by blast
  note agrees = view_invD [OF inv, of ?a]
  have "tag_inv (snd ?d) (newer (last_presence ?a evs) (last_presence ?a (fst ?d)))
          (zones_or (shown_zones ?a evs) (last_zones ?a (fst ?d)))"
  proof (cases "states ?a")
    case None
    with agrees tag_inv_first [OF wf dist] show ?thesis
      by (simp add: tag_state_def tag_agrees_def shown_zones_def)
  next
    case (Some st)
    with agrees have "tag_inv st (last_presence ?a evs) (shown_zones ?a evs)"
      by (auto simp: tag_agrees_def)
    from tag_inv_derive [OF this wf dist now] Some show ?thesis by (simp add: tag_state_def)
  qed
  then have this_tag: "tag_inv (snd ?d) (last_presence ?a (evs @ fst ?d)) (shown_zones ?a (evs @ fst ?d))"
    by (simp add: shown_zones_append)
  show ?thesis
    unfolding view_inv_def
  proof
    fix c
    show "tag_agrees unmarshal (reads @ [ReadPacket b clk])
        (evs @ fst (handle_datagram unmarshal states b clk)) (snd (handle_datagram unmarshal states b clk)) c"
    proof (cases "c = ?a")
      case True
      with Inr wf this_tag show ?thesis
        by (simp add: handle_datagram_accepted case_prod_beta tag_agrees_def)
    next
      case False
      then have "last_presence c (fst ?d) = None" "last_zones c (fst ?d) = None"
        using view_other [of "fst ?d" c] own by blast+
      with False Inr show ?thesis
        by (intro tag_agrees_frame [OF view_invD [OF inv]])
          (simp_all add: handle_datagram_accepted case_prod_beta)
    qed
  qed
qed

text \<open>A sweep emits for each flagged tag one event, in the order of the map's iteration.\<close>

lemma sweep_events_view:
  assumes "distinct ids"
  shows "last_presence a (map (\<lambda>a. watchdogEvent a (the (states a)) now) (filter (flagged states now) ids))
      = (if a \<in> set ids \<and> flagged states now a then Some PresenceTypeInactive else None)"
    and "last_zones a (map (\<lambda>a. watchdogEvent a (the (states a)) now) (filter (flagged states now) ids)) = None"
  using assms by (induction ids) (auto simp: view_defs intro!: last_such_None)

lemma view_inv_sweep:
  assumes inv: "view_inv unmarshal reads evs states" and ok: "read_ok unmarshal (ReadDeadline ids now)"
  shows "view_inv unmarshal (reads @ [ReadDeadline ids now])
    (evs @ fst (loop_read unmarshal states (ReadDeadline ids now)))
    (snd (loop_read unmarshal states (ReadDeadline ids now)))"
  unfolding view_inv_def
proof
  fix a
  let ?s = "\<lambda>a. if a \<in> set ids then map_option (sweep_tag now) (states a) else states a"
  let ?evs = "map (\<lambda>a. watchdogEvent a (the (states a)) now) (filter (flagged states now) ids)"
  have ids: "distinct ids" using ok by simp
  have "tag_agrees unmarshal (reads @ [ReadDeadline ids now]) (evs @ ?evs) ?s a"
  proof (cases "a \<in> set ids \<and> flagged states now a")
    case True
    then obtain st where st: "states a = Some st" "\<not> watchdog_skips st now"
      by (auto simp: flagged_def split: option.splits)
    with view_invD [OF inv, of a] True sweep_events_view [OF ids, of a states now] show ?thesis
      by (auto simp: tag_agrees_def sweep_tag_def shown_zones_append intro!: tag_inv_sweep)
  next
    case False
    then have "?s a = states a"
      by (auto simp: flagged_def sweep_tag_def split: option.splits)
    with False sweep_events_view [OF ids, of a states now] show ?thesis
      by (intro tag_agrees_frame [OF view_invD [OF inv]]) auto
  qed
  then show "tag_agrees unmarshal (reads @ [ReadDeadline ids now])
      (evs @ fst (loop_read unmarshal states (ReadDeadline ids now)))
      (snd (loop_read unmarshal states (ReadDeadline ids now))) a"
    using runWatchdog_collect [OF ids, of states now "[]"] by simp
qed

interpretation tags: io_machine "loop_read unmarshal" Map.empty "read_ok unmarshal" "view_inv unmarshal"
  for unmarshal :: "'b \<Rightarrow> string + udpMsg"
proof unfold_locales
  show "view_inv unmarshal [] [] Map.empty" by (rule view_inv_start)
next
  fix r :: "'b read" and rs evs states
  assume ok: "read_ok unmarshal r" and inv: "view_inv unmarshal rs evs states"
  show "view_inv unmarshal (rs @ [r]) (evs @ fst (loop_read unmarshal states r))
      (snd (loop_read unmarshal states r))"
  proof (cases r)
    case (ReadPacket b clk)
    with view_inv_packet [OF inv, of b clk] ok show ?thesis by simp
  next
    case (ReadDeadline ids now)
    with view_inv_sweep [OF inv, of ids now] ok show ?thesis by simp
  next
    case (ReadError err)
    with inv show ?thesis by (auto simp: view_inv_def intro: tag_agrees_frame)
  qed
qed

section \<open>Properties\<close>

text \<open>A run of the read loop from its start: the events derived and the states left.\<close>

definition feed :: "('b \<Rightarrow> string + udpMsg) \<Rightarrow> 'b read list \<Rightarrow> event list \<times> tag_states" where
  "feed unmarshal reads = run (loop_read unmarshal) Map.empty reads"

lemma feed_inv:
  "list_all (read_ok unmarshal) reads \<Longrightarrow>
     view_inv unmarshal reads (fst (feed unmarshal reads)) (snd (feed unmarshal reads))"
  unfolding feed_def by (rule tags.inv_run)

lemma feed_agrees:
  "list_all (read_ok unmarshal) reads \<Longrightarrow>
     tag_agrees unmarshal reads (fst (feed unmarshal reads)) (snd (feed unmarshal reads)) a"
  by (rule view_invD) (rule feed_inv)

text \<open>A run for the concrete instances: a tag with a fix in one zone, silent for 19 seconds.\<close>

definition silent_run :: "datagram read list" where
  "silent_run = [ReadPacket (positionPkt ''tag'' [''pool''] 1000 1000) (GoTime 0),
     ReadDeadline [''tag''] (GoTime 20000000000)]"

lemma silent_run_ok [simp]: "list_all (read_ok sim_unmarshal) silent_run"
  by (simp add: silent_run_def normaliseZones_def)

lemma silent_run_msg [simp]:
  "last_msg sim_unmarshal ''tag'' silent_run = Some (received (positionPkt ''tag'' [''pool''] 1000 1000))"
  by (simp add: silent_run_def last_msg_def)

lemma silent_run_state [simp]:
  "\<exists>st. snd (feed sim_unmarshal silent_run) ''tag'' = Some st \<and> \<not> online st"
proof -
  let ?m = "received (positionPkt ''tag'' [''pool''] 1000 1000)"
  let ?st = "snd (deriveEvents new_tagState ?m (time_UnixMilli 1000))"
  have "locationLostAt ?st = time_zero"
    by (simp add: derive_first) (simp add: new_tagState_def)
  then have "\<not> watchdog_skips ?st (GoTime 20000000000)"
    by (simp add: watchdog_skips_def OfflineThreshold_def time_defs)
  then show ?thesis
    by (simp add: feed_def silent_run_def handle_datagram_accepted tag_state_def case_prod_beta
        collect_def)
qed

text \<open>
  C5: after any run of reads, a tag that the watchdog has flagged offline or whose
  location is lost is shown inactive by the last presence event derived for it, and a
  tag that is online with a position fix is not shown inactive.
\<close>

theorem presence_view:
  assumes "list_all (read_ok unmarshal) reads" and "snd (feed unmarshal reads) a = Some st"
  shows "(if \<not> online st \<or> \<not> time_is_zero (locationLostAt st)
          then last_presence a (fst (feed unmarshal reads)) = Some PresenceTypeInactive
          else isLocationType (lastLocationType st) \<longrightarrow>
            last_presence a (fst (feed unmarshal reads)) \<noteq> Some PresenceTypeInactive)"
  using feed_agrees [OF assms(1), of a] assms(2) by (auto simp: tag_agrees_def tag_inv_def)

theorem presence_view_witness:
  "last_presence ''tag'' (fst (feed sim_unmarshal silent_run)) = Some PresenceTypeInactive"
proof -
  obtain st where st: "snd (feed sim_unmarshal silent_run) ''tag'' = Some st" "\<not> online st"
    using silent_run_state by blast
  from presence_view [OF silent_run_ok st(1)] st(2) show ?thesis by simp
qed

text \<open>
  C6: after any run of reads, the last zone event derived for a tag names exactly the
  zones of the last datagram accepted for it when that datagram has a position fix, and
  no zone otherwise; a tag without a zone event is in no zone.
\<close>

theorem zone_view:
  assumes "list_all (read_ok unmarshal) reads" and "last_msg unmarshal a reads = Some m"
  shows "set (shown_zones a (fst (feed unmarshal reads)))
       = (if LocationType m = ''position'' then set (normaliseZones (LocationZoneIds m)) else {})"
  using feed_agrees [OF assms(1), of a] assms(2)
  by (cases "snd (feed unmarshal reads) a")
    (auto simp: tag_agrees_def tag_inv_def isLocationType_def)

theorem zone_view_witness: "set (shown_zones ''tag'' (fst (feed sim_unmarshal silent_run))) = {''pool''}"
  using zone_view [OF silent_run_ok silent_run_msg] by (simp add: normaliseZones_def)

text \<open>
  A tag the watchdog must flag: online, with its location not marked as lost (it may never have
  had one), silent for the threshold.
\<close>

definition silent :: "tagState \<Rightarrow> gotime \<Rightarrow> bool" where
  "silent st now \<longleftrightarrow> online st \<and> locationLostAt st = time_zero
     \<and> 12000000000 \<le> unix_ns now - unix_ns (lastPacketTS st)"

lemma not_watchdog_skips: "\<not> watchdog_skips st now \<longleftrightarrow> silent st now"
proof -
  have "time_Sub now (lastPacketTS st) < OfflineThreshold \<longleftrightarrow>
      unix_ns now - unix_ns (lastPacketTS st) < 12000000000"
    by (subst time_Sub_lt_iff) (simp_all add: OfflineThreshold_def time_defs)
  then show ?thesis by (auto simp: watchdog_skips_def silent_def time_is_zero_def)
qed

text \<open>
  C28: a sweep of the watchdog whose callback does not fail flags as offline exactly the tags
  that are online, whose location is not marked as lost and whose last packet is 12 seconds
  old or older; tags that never had a location are flagged too, tags that lost theirs never
  are, however long they are silent. Every other state is left as it was, and there is one
  inactive presence event for each flagged tag, in the order of the map's iteration.
\<close>

theorem watchdog_sweep:
  assumes "distinct ids" and "set ids = dom states"
  shows "runWatchdog ids states now collect [] =
    (None,
     (\<lambda>a. map_option (\<lambda>st. if silent st now then st\<lparr>online := False\<rparr> else st) (states a)),
     map (\<lambda>a. watchdogEvent a (the (states a)) now) (filter (\<lambda>a. silent (the (states a)) now) ids))"
proof -
  have "filter (flagged states now) ids = filter (\<lambda>a. silent (the (states a)) now) ids"
    using assms(2) by (intro filter_cong) (auto simp: flagged_def not_watchdog_skips)
  moreover have "(\<lambda>a. if a \<in> set ids then map_option (sweep_tag now) (states a) else states a)
      = (\<lambda>a. map_option (\<lambda>st. if silent st now then st\<lparr>online := False\<rparr> else st) (states a))"
  proof
    fix a
    have "sweep_tag now = (\<lambda>st. if silent st now then st\<lparr>online := False\<rparr> else st)"
      by (auto simp: sweep_tag_def fun_eq_iff simp flip: not_watchdog_skips)
    then show "(if a \<in> set ids then map_option (sweep_tag now) (states a) else states a)
        = map_option (\<lambda>st. if silent st now then st\<lparr>online := False\<rparr> else st) (states a)"
      using assms(2) by (cases "states a") (auto simp: domI)
  qed
  ultimately show ?thesis
    using runWatchdog_collect [OF assms(1), of states now "[]"] by simp
qed

theorem watchdog_sweep_witness:
  "\<exists>st. runWatchdog [''tag''] [''tag'' \<mapsto> new_tagState\<lparr>online := True\<rparr>] (GoTime 0) collect [] = st
     \<and> map ev_actor (snd (snd st)) = [''tag'']"
proof -
  have silent: "silent (new_tagState\<lparr>online := True\<rparr>) (GoTime 0)"
    by (simp add: silent_def new_tagState_def time_defs)
  show ?thesis
    using watchdog_sweep [of "[''tag'']" "[''tag'' \<mapsto> new_tagState\<lparr>online := True\<rparr>]" "GoTime 0"] silent
    by simp
qed

text \<open>
  When the callback fails on an event, the sweep stops there and returns that
  error: exactly the silent tags visited before the failing one are flagged offline,
  and the failing tag stays online, so that the next sweep reports it again.
\<close>

lemma watchdog_error:
  assumes "distinct ids" and "runWatchdog ids states now emit w = (Some err, states', w')"
  shows "\<exists>before a after st. ids = before @ a # after \<and> states a = Some st \<and> silent st now
     \<and> (\<exists>v. emit (watchdogEvent a st now) v = (Some err, w'))
     \<and> states' = (\<lambda>b. if b \<in> set before then map_option (sweep_tag now) (states b) else states b)"
  using assms
proof (induction ids arbitrary: states w)
  case Nil
  then show ?case by simp
next
  case (Cons c ids)
  show ?case
  proof (cases "flagged states now c")
    case False
    then have keep: "map_option (sweep_tag now) (states c) = states c"
      by (auto simp: flagged_def sweep_tag_def split: option.splits)
    have "runWatchdog ids states now emit w = (Some err, states', w')"
      using False Cons.prems(2) by (auto simp: flagged_def split: option.splits)
    from Cons.IH [OF _ this] Cons.prems(1) obtain before a after st v where
      ih: "ids = before @ a # after" "states a = Some st" "silent st now"
        "emit (watchdogEvent a st now) v = (Some err, w')"
        "states' = (\<lambda>b. if b \<in> set before then map_option (sweep_tag now) (states b) else states b)"
      by auto
    then have "c # ids = (c # before) @ a # after"
      "states' = (\<lambda>b. if b \<in> set (c # before) then map_option (sweep_tag now) (states b) else states b)"
      using keep by (auto simp: fun_eq_iff)
    with ih(2-4) show ?thesis by blast
  next
    case True
    then obtain st where st: "states c = Some st" "\<not> watchdog_skips st now"
      by (auto simp: flagged_def split: option.splits)
    obtain r v where emit: "emit (watchdogEvent c st now) w = (r, v)" by (cases "emit (watchdogEvent c st now) w")
    show ?thesis
    proof (cases r)
      case (Some err')
      with st emit Cons.prems(2) have "states' = states" "err' = err" "v = w'" by simp_all
      with Some st emit show ?thesis
        by (intro exI [of _ "[]"] exI [of _ c] exI [of _ ids] exI [of _ st]) (auto simp: not_watchdog_skips)
    next
      case None
      let ?s = "states(c \<mapsto> st\<lparr>online := False\<rparr>)"
      have "runWatchdog ids ?s now emit v = (Some err, states', w')"
        using None st emit Cons.prems(2) by simp
      from Cons.IH [OF _ this] Cons.prems(1) obtain before a after st' u where
        ih: "ids = before @ a # after" "?s a = Some st'" "silent st' now"
          "emit (watchdogEvent a st' now) u = (Some err, w')"
          "states' = (\<lambda>b. if b \<in> set before then map_option (sweep_tag now) (?s b) else ?s b)"
        by auto
      have ne: "a \<noteq> c" "c \<notin> set before" using Cons.prems(1) ih(1) by auto
      have "states' = (\<lambda>b. if b \<in> set (c # before) then map_option (sweep_tag now) (states b) else states b)"
        using ih(5) ne st by (auto simp: fun_eq_iff sweep_tag_def)
      moreover have "c # ids = (c # before) @ a # after" "states a = Some st'"
        using ih(1,2) ne by simp_all
      ultimately show ?thesis using ih(3,4) by blast
    qed
  qed
qed

text \<open>
  C32: reading packets of other tags, and read errors, neither changes a tag's state nor
  derives an event for it, however much time their timestamps say has passed: only an
  expired read deadline runs the watchdog, so a silent tag is not flagged offline while
  other tags keep the socket busy.
\<close>

theorem watchdog_starved:
  assumes "list_all (\<lambda>r. (case r of ReadDeadline ids now \<Rightarrow> False | _ \<Rightarrow> True)
      \<and> list_all (\<lambda>m. TagID m \<noteq> a) (accepted unmarshal r)) reads"
  shows "snd (run (loop_read unmarshal) states reads) a = states a
    \<and> filter (\<lambda>e. ev_actor e = a) (fst (run (loop_read unmarshal) states reads)) = []"
  using assms
proof (induction reads arbitrary: states)
  case Nil
  then show ?case by simp
next
  case (Cons r reads)
  have "snd (loop_read unmarshal states r) a = states a
      \<and> filter (\<lambda>e. ev_actor e = a) (fst (loop_read unmarshal states r)) = []"
  proof (cases r)
    case (ReadPacket b clk)
    show ?thesis
    proof (cases "parseDatagram unmarshal b")
      case (Inl reason)
      with ReadPacket show ?thesis by (simp add: handle_datagram_def)
    next
      case (Inr msg)
      have "ev_actor e = TagID msg"
        if "e \<in> set (fst (deriveEvents (tag_state states (TagID msg)) msg (time_UnixMilli (ResponseTS msg))))" for e
        using that derive_shape by blast
      with Inr ReadPacket Cons.prems show ?thesis
        by (auto simp: handle_datagram_accepted case_prod_beta filter_empty_conv)
    qed
  next
    case (ReadDeadline ids now)
    with Cons.prems show ?thesis by simp
  next
    case (ReadError err)
    then show ?thesis by simp
  qed
  with Cons.IH [of "snd (loop_read unmarshal states r)"] Cons.prems show ?case
    by (simp add: case_prod_beta)
qed

theorem watchdog_starved_witness:
  "snd (run (loop_read sim_unmarshal) (snd (feed sim_unmarshal [hd silent_run]))
     [ReadPacket (positionPkt ''other'' [] 600000 600000) (GoTime 0)]) ''tag''
   = snd (feed sim_unmarshal [hd silent_run]) ''tag''"
  using watchdog_starved [where a = "''tag''" and unmarshal = sim_unmarshal
      and reads = "[ReadPacket (positionPkt ''other'' [] 600000 600000) (GoTime 0)]"]
  by simp

text \<open>The events of a sweep about one tag.\<close>

lemma sweep_of_tag:
  assumes "distinct ids" and "a \<in> set ids"
  shows "filter (\<lambda>e. ev_actor e = a) (fst (loop_read unmarshal states (ReadDeadline ids now)))
    = (if flagged states now a then [watchdogEvent a (the (states a)) now] else [])"
proof -
  have "filter (\<lambda>e. ev_actor e = a) (map (\<lambda>b. watchdogEvent b (the (states b)) now) (filter (flagged states now) bs))
      = (if a \<in> set bs \<and> flagged states now a then [watchdogEvent a (the (states a)) now] else [])"
    if "distinct bs" for bs
    using that by (induction bs) (auto simp: watchdogEvent_def)
  from this [OF assms(1)] assms show ?thesis by (simp add: runWatchdog_collect)
qed

text \<open>
  C36: the packet time of a datagram decides what the next sweep says of its tag, and nothing
  else does. After any run of reads that ends with an accepted datagram with a fix, the tag is
  online; a sweep then emits exactly one event about it, an inactive presence, and leaves it
  offline, if the datagram's lastPacketTS is 12 seconds old or older, and no event otherwise.
  A datagram without lastPacketTS is accepted and has 0, the year 1970, there, so that the
  next sweep reports the tag as gone, at the very moment its datagram came.
\<close>

theorem sweep_after_packet:
  assumes "list_all (read_ok unmarshal) (reads @ [ReadPacket b clk])" and "parseDatagram unmarshal b = Inr m"
    and "LocationType m = ''position''" and "distinct ids" and "TagID m \<in> set ids"
    and "feed unmarshal (reads @ [ReadPacket b clk]) = (evs, states)"
    and "loop_read unmarshal states (ReadDeadline ids now) = (evs', states')"
  shows "map_option online (states (TagID m)) = Some True
    \<and> (if 12000000000 \<le> unix_ns now - sint (LastPacketTS m) * 1000000
       then map ev_presence (filter (\<lambda>e. ev_actor e = TagID m) evs') = [PresenceTypeInactive]
         \<and> map_option online (states' (TagID m)) = Some False
       else filter (\<lambda>e. ev_actor e = TagID m) evs' = [] \<and> states' (TagID m) = states (TagID m))"
proof -
  let ?a = "TagID m"
  have evs': "evs' = fst (loop_read unmarshal states (ReadDeadline ids now))"
    and states': "states' = (\<lambda>a. if a \<in> set ids then map_option (sweep_tag now) (states a) else states a)"
    using assms(7) by (simp_all add: runWatchdog_collect [OF assms(4)])
  have "states = snd (loop_read unmarshal (snd (feed unmarshal reads)) (ReadPacket b clk))"
    using assms(6) by (simp add: feed_def run_append case_prod_beta Let_def)
  then obtain st where st: "states ?a = Some st" "online st"
    by (simp add: handle_datagram_accepted [OF assms(2)] case_prod_beta)
  have "last_msg unmarshal ?a (reads @ [ReadPacket b clk]) = Some m"
    using assms(2) by simp
  with feed_agrees [OF assms(1), of ?a] assms(3,6) st have
    "locationLostAt st = time_zero" "lastPacketTS st = time_UnixMilli (LastPacketTS m)"
    by (auto simp: tag_agrees_def tag_inv_def isLocationType_def time_is_zero_def)
  with st have silent: "\<not> watchdog_skips st now \<longleftrightarrow> 12000000000 \<le> unix_ns now - sint (LastPacketTS m) * 1000000"
    by (simp add: not_watchdog_skips silent_def)
  with sweep_of_tag [OF assms(4,5), of unmarshal states now] st assms(5) show ?thesis
    unfolding evs' states' by (auto simp: flagged_def sweep_tag_def watchdogEvent_def ev_presence_def)
qed

text \<open>A datagram dated 1000 s after the epoch, without a packet time, and a sweep at that moment.\<close>

theorem sweep_after_packet_witness:
  "map ev_presence (filter (\<lambda>e. ev_actor e = ''tag'')
     (fst (loop_read sim_unmarshal (snd (feed sim_unmarshal ([] @ [ReadPacket (positionPkt ''tag'' [''pool''] 1000000 0) (GoTime 0)])))
       (ReadDeadline [''tag''] (time_UnixMilli 1000000))))) = [PresenceTypeInactive]"
proof -
  let ?b = "positionPkt ''tag'' [''pool''] 1000000 0"
  have ok: "list_all (read_ok sim_unmarshal) ([] @ [ReadPacket ?b (GoTime 0)])"
    by (simp add: normaliseZones_def)
  have msg: "parseDatagram sim_unmarshal ?b = Inr (received ?b)" by simp
  from sweep_after_packet [OF ok msg _ _ _ surjective_pairing surjective_pairing, of "[''tag'']" "time_UnixMilli 1000000"]
  show ?thesis by simp
qed

end
