(* ===== verification/AdapterRun.thy ===== *)
theory AdapterRun
  imports TagView
begin

text \<open>
  \<open>Adapter.Run\<close> as a whole: the read loop, the buffered channel \<open>evCh\<close> and the emit
  goroutine, as a step relation in which the two goroutines interleave freely. The
  loop is at its head when it has no event left to send; between a read and the next
  head it hands the derived events to \<open>send\<close> one by one.
\<close>

section \<open>The state of a run\<close>

text \<open>
  \<open>inflight\<close> is the event the emit goroutine has received and not yet finished
  emitting. \<open>delivered\<close>, \<open>failed\<close> and \<open>dropped\<close> record what happened to events: emitted
  without error, refused by \<open>emit\<close>, dropped by \<open>send\<close> because the channel was full.
  \<open>result\<close> is the error the loop has decided to return; the deferred function then
  closes the channel and waits for the goroutine.
\<close>

record run_state =
  states :: tag_states
  pending :: "event list"
  evCh :: "event list"
  closed :: bool
  errCh :: "go_error option"
  emitting :: bool
  inflight :: "event option"
  result :: "go_error option"
  delivered :: "event list"
  failed :: "event list"
  dropped :: "event list"

definition run_start :: run_state where
  "run_start = \<lparr>states = Map.empty, pending = [], evCh = [], closed = False, errCh = None,
     emitting = True, inflight = None, result = None, delivered = [], failed = [], dropped = []\<rparr>"

text \<open>\<open>send\<close>: a non-blocking send on the buffered channel.\<close>

definition send_event :: "event \<Rightarrow> run_state \<Rightarrow> run_state" where
  "send_event ev s =
     (if length (evCh s) < emitChanSize then s\<lparr>evCh := evCh s @ [ev]\<rparr>
      else s\<lparr>dropped := dropped s @ [ev]\<rparr>)"

text \<open>One return: the loop returns \<open>err\<close> and the deferred function closes the channel.\<close>

definition return_with :: "go_error \<Rightarrow> run_state \<Rightarrow> run_state" where
  "return_with err s = s\<lparr>result := Some err, closed := True\<rparr>"

definition at_head :: "run_state \<Rightarrow> bool" where
  "at_head s = (result s = None \<and> pending s = [])"

text \<open>A read of the loop is a packet or an error; only an error looks at the context.\<close>

fun read_is_error :: "'b read \<Rightarrow> bool" where
  "read_is_error (ReadPacket b clk) = False"
| "read_is_error (ReadDeadline ids now) = True"
| "read_is_error (ReadError err) = True"

text \<open>
  The labels of the steps: a read of the loop with the context's error at that
  moment, any other step of the loop, or a step of the emit goroutine.
\<close>

datatype 'b label = Read "'b read" "go_error option" | Loop | Emit

inductive run_step ::
  "('b \<Rightarrow> string + udpMsg) \<Rightarrow> run_state \<Rightarrow> 'b label \<Rightarrow> run_state \<Rightarrow> bool"
  for unmarshal :: "'b \<Rightarrow> string + udpMsg" where
  emit_error: "at_head s \<Longrightarrow> errCh s = Some err \<Longrightarrow>
     run_step unmarshal s Loop (return_with (Wrapped ''quuppa: emit: '' err) (s\<lparr>errCh := None\<rparr>))"
| read_cancelled: "at_head s \<Longrightarrow> errCh s = None \<Longrightarrow> read_is_error r \<Longrightarrow> ctx_err = Some err \<Longrightarrow>
     run_step unmarshal s (Read r ctx_err) (return_with err s)"
| read_handled: "at_head s \<Longrightarrow> errCh s = None \<Longrightarrow> \<not> (read_is_error r \<and> ctx_err \<noteq> None) \<Longrightarrow>
     run_step unmarshal s (Read r ctx_err)
       (s\<lparr>states := snd (loop_read unmarshal (states s) r),
          pending := fst (loop_read unmarshal (states s) r)\<rparr>)"
| send: "result s = None \<Longrightarrow> pending s = ev # evs \<Longrightarrow>
     run_step unmarshal s Loop (send_event ev (s\<lparr>pending := evs\<rparr>))"
| emit_recv: "emitting s \<Longrightarrow> inflight s = None \<Longrightarrow> evCh s = ev # evs \<Longrightarrow>
     run_step unmarshal s Emit (s\<lparr>evCh := evs, inflight := Some ev\<rparr>)"
| emit_ok: "inflight s = Some ev \<Longrightarrow>
     run_step unmarshal s Emit (s\<lparr>inflight := None, delivered := delivered s @ [ev]\<rparr>)"
| emit_fail: "inflight s = Some ev \<Longrightarrow>
     run_step unmarshal s Emit
       (s\<lparr>inflight := None, failed := failed s @ [ev], emitting := False,
          errCh := (case errCh s of None \<Rightarrow> Some err | Some err' \<Rightarrow> Some err')\<rparr>)"
| emit_eof: "emitting s \<Longrightarrow> inflight s = None \<Longrightarrow> evCh s = [] \<Longrightarrow> closed s \<Longrightarrow>
     run_step unmarshal s Emit (s\<lparr>emitting := False\<rparr>)"

inductive_cases run_stepE: "run_step unmarshal s l s'"

text \<open>The reads a step made the loop handle.\<close>

definition handled :: "'b label \<Rightarrow> 'b read list" where
  "handled l = (case l of Read r ctx_err \<Rightarrow>
      if read_is_error r \<and> ctx_err \<noteq> None then [] else [r] | _ \<Rightarrow> [])"

text \<open>Runs from the start, with the reads handled on the way.\<close>

inductive run_reach ::
  "('b \<Rightarrow> string + udpMsg) \<Rightarrow> 'b read list \<Rightarrow> run_state \<Rightarrow> bool"
  for unmarshal :: "'b \<Rightarrow> string + udpMsg" where
  start: "run_reach unmarshal [] run_start"
| step: "run_reach unmarshal rs s \<Longrightarrow> run_step unmarshal s l s' \<Longrightarrow>
     run_reach unmarshal (rs @ handled l) s'"

section \<open>The invariant\<close>

text \<open>The events still on their way, in the order they will reach the callback.\<close>

definition in_transit :: "run_state \<Rightarrow> event list" where
  "in_transit s = (case inflight s of None \<Rightarrow> [] | Some ev \<Rightarrow> [ev]) @ evCh s @ pending s"

definition run_inv :: "('b \<Rightarrow> string + udpMsg) \<Rightarrow> 'b read list \<Rightarrow> run_state \<Rightarrow> bool" where
  "run_inv unmarshal rs s \<longleftrightarrow>
     states s = snd (run (loop_read unmarshal) Map.empty rs)
     \<and> length (evCh s) \<le> emitChanSize
     \<and> subseq (delivered s @ failed s @ in_transit s) (fst (run (loop_read unmarshal) Map.empty rs))
     \<and> length (fst (run (loop_read unmarshal) Map.empty rs))
         = length (delivered s @ failed s @ in_transit s) + length (dropped s)
     \<and> (inflight s \<noteq> None \<longrightarrow> emitting s)
     \<and> (failed s \<noteq> [] \<longrightarrow> \<not> emitting s)
     \<and> (closed s \<longleftrightarrow> result s \<noteq> None)
     \<and> (result s \<noteq> None \<longrightarrow> pending s = [])
     \<and> (\<not> emitting s \<longrightarrow> failed s \<noteq> [] \<or> closed s \<and> evCh s = [])
     \<and> (failed s = [] \<longrightarrow> errCh s = None)"

lemma subseq_skip: "subseq (xs @ y # ys) zs \<Longrightarrow> subseq (xs @ ys) zs"
  by (rule subseq_order.trans [of _ "xs @ y # ys"]) (auto intro!: list_emb_append_mono)

lemma run_inv_start: "run_inv unmarshal [] run_start"
  by (simp add: run_inv_def run_start_def in_transit_def)

lemma handled_simps [simp]: "handled Loop = []" "handled Emit = []"
  "\<not> (read_is_error r \<and> ctx_err \<noteq> None) \<Longrightarrow> handled (Read r ctx_err) = [r]"
  "read_is_error r \<Longrightarrow> handled (Read r (Some err)) = []"
  by (auto simp: handled_def)

lemmas run_inv_defs = run_inv_def in_transit_def return_with_def at_head_def

text \<open>The read step: the derived events join the end of what is in transit.\<close>

lemma run_inv_read:
  assumes inv: "run_inv unmarshal rs s" and head: "at_head s"
  shows "run_inv unmarshal (rs @ [r])
    (s\<lparr>states := snd (loop_read unmarshal (states s) r),
       pending := fst (loop_read unmarshal (states s) r)\<rparr>)"
proof -
  let ?evs = "fst (loop_read unmarshal (states s) r)"
  have st: "states s = snd (run (loop_read unmarshal) Map.empty rs)"
    using inv by (simp add: run_inv_def)
  have all: "fst (run (loop_read unmarshal) Map.empty (rs @ [r]))
      = fst (run (loop_read unmarshal) Map.empty rs) @ ?evs"
    "snd (run (loop_read unmarshal) Map.empty (rs @ [r])) = snd (loop_read unmarshal (states s) r)"
    by (simp_all add: run_snoc st case_prod_beta)
  have "subseq ((delivered s @ failed s @ in_transit s) @ ?evs)
      (fst (run (loop_read unmarshal) Map.empty rs) @ ?evs)"
    using inv by (intro list_emb_append_mono) (simp_all add: run_inv_def)
  with inv head all show ?thesis
    by (auto simp: run_inv_defs)
qed

lemma run_inv_step:
  assumes inv: "run_inv unmarshal rs s" and step: "run_step unmarshal s l s'"
  shows "run_inv unmarshal (rs @ handled l) s'"
  using step
proof (cases rule: run_step.cases)
  case (emit_error err)
  with inv show ?thesis by (auto simp: run_inv_defs)
next
  case (read_cancelled r ctx_err err)
  with inv show ?thesis by (auto simp: run_inv_defs)
next
  case (read_handled r ctx_err)
  with run_inv_read [OF inv, of r] show ?thesis by simp
next
  case (send ev evs)
  have "subseq (delivered s @ failed s @ in_transit (s\<lparr>pending := evs\<rparr>))
      (fst (run (loop_read unmarshal) Map.empty rs))"
    using inv send subseq_skip [of "delivered s @ failed s @
      (case inflight s of None \<Rightarrow> [] | Some e \<Rightarrow> [e]) @ evCh s" ev evs]
    by (simp add: run_inv_def in_transit_def)
  with inv send show ?thesis
    by (auto simp: run_inv_defs send_event_def)
next
  case (emit_recv ev evs)
  with inv show ?thesis by (auto simp: run_inv_defs)
next
  case (emit_ok ev)
  with inv show ?thesis by (auto simp: run_inv_defs)
next
  case (emit_fail ev err)
  with inv show ?thesis by (auto simp: run_inv_defs split: option.split)
next
  case emit_eof
  with inv show ?thesis by (auto simp: run_inv_defs)
qed

lemma run_reach_inv: "run_reach unmarshal rs s \<Longrightarrow> run_inv unmarshal rs s"
  by (induction rule: run_reach.induct) (auto intro: run_inv_start run_inv_step)

section \<open>Shutdown\<close>

text \<open>What the emit goroutine still has to do before \<open>Run\<close> can return.\<close>

definition emit_work :: "run_state \<Rightarrow> nat" where
  "emit_work s = (if emitting s then 1 + 2 * length (evCh s) + (if inflight s = None then 0 else 1)
     else if inflight s = None then 0 else 1)"

text \<open>\<open>Run\<close> has returned: the loop has its result and the goroutine has ended.\<close>

definition returned :: "run_state \<Rightarrow> bool" where
  "returned s \<longleftrightarrow> result s \<noteq> None \<and> \<not> emitting s \<and> inflight s = None"

lemma emit_work_step:
  assumes "run_step unmarshal s l s'" and "result s \<noteq> None" and "run_inv unmarshal rs s"
  shows "l = Emit \<and> result s' = result s \<and> emit_work s' < emit_work s"
proof -
  have "pending s = []" using assms(2,3) by (simp add: run_inv_def)
  with assms(1,2) show ?thesis
    by (cases rule: run_step.cases) (simp_all add: at_head_def emit_work_def)
qed

text \<open>Progress: of the loop until it returns, of the goroutine afterwards.\<close>

lemma loop_progress:
  assumes "result s = None"
  shows "\<exists>l s'. (l = Loop \<or> l = Read r ctx_err) \<and> run_step unmarshal s l s'"
proof (cases "pending s")
  case (Cons ev evs)
  with assms show ?thesis by (blast intro: run_step.send)
next
  case Nil
  with assms have head: "at_head s" by (simp add: at_head_def)
  show ?thesis
  proof (cases "errCh s")
    case (Some err)
    with head show ?thesis by (blast intro: run_step.emit_error)
  next
    case None
    with head show ?thesis
      by (cases ctx_err) (blast intro: run_step.read_cancelled run_step.read_handled)+
  qed
qed

lemma emit_progress:
  assumes inv: "run_inv unmarshal rs s" and "result s \<noteq> None"
  shows "returned s \<or> (\<exists>t. run_step unmarshal s Emit t)"
proof (cases "inflight s")
  case (Some ev)
  then show ?thesis by (blast intro: run_step.emit_ok)
next
  case None
  show ?thesis
  proof (cases "emitting s")
    case False
    with None assms(2) show ?thesis by (simp add: returned_def)
  next
    case True
    with None assms(2) inv show ?thesis
      by (cases "evCh s")
        (auto simp: run_inv_def intro: run_step.emit_recv [OF True None] run_step.emit_eof [OF True None])
  qed
qed

section \<open>Properties\<close>

text \<open>
  C8: at every moment of a run, whatever the interleaving of the two goroutines, the
  channel holds at most its capacity; the events delivered, then a refused one, then
  those in transit are a subsequence of the events derived from the reads, in the order
  derived; and every event not among them was dropped by a full channel, so that
  without drops they are exactly the derived events.
\<close>

theorem run_conserves_events:
  assumes "run_reach unmarshal reads s"
  shows "length (evCh s) \<le> 1024
    \<and> subseq (delivered s @ failed s @ in_transit s) (fst (feed unmarshal reads))
    \<and> length (fst (feed unmarshal reads))
        = length (delivered s @ failed s @ in_transit s) + length (dropped s)
    \<and> (dropped s = [] \<longrightarrow> delivered s @ failed s @ in_transit s = fst (feed unmarshal reads))"
  using run_reach_inv [OF assms]
  by (auto simp: run_inv_def feed_def emitChanSize_def dest: subseq_same_length)

text \<open>A run that reads one packet, for the concrete instances.\<close>

definition one_read :: "datagram read list" where
  "one_read = [ReadPacket (positionPkt ''tag'' [''pool''] 1000 1000) (GoTime 0)]"

definition after_one_read :: run_state where
  "after_one_read = run_start\<lparr>states := snd (feed sim_unmarshal one_read),
     pending := fst (feed sim_unmarshal one_read)\<rparr>"

lemma reach_one_read [simp]: "run_reach sim_unmarshal one_read after_one_read"
proof -
  have "run_step sim_unmarshal run_start (Read (hd one_read) None) after_one_read"
    using read_handled [of run_start "hd one_read" None sim_unmarshal]
    by (simp add: after_one_read_def one_read_def feed_def at_head_def run_start_def case_prod_beta)
  from run_reach.step [OF run_reach.start this] show ?thesis
    by (simp add: one_read_def)
qed

theorem run_conserves_events_witness:
  "in_transit after_one_read = fst (feed sim_unmarshal one_read)"
  using run_conserves_events [OF reach_one_read]
  by (simp add: after_one_read_def run_start_def)

text \<open>
  C26: the read loop is never blocked by the downstream: until it returns, in every
  state of the emit goroutine and of the channel, the loop itself has a next step,
  whatever the read and the context give.
\<close>

theorem loop_never_blocks:
  assumes "result s = None"
  shows "\<exists>l s'. (l = Loop \<or> l = Read r ctx_err) \<and> run_step unmarshal s l s'"
  by (rule loop_progress [OF assms])

theorem loop_never_blocks_witness:
  "\<exists>l s'. (l = Loop \<or> l = Read (ReadDeadline [''tag''] (GoTime 0)) None)
     \<and> run_step sim_unmarshal after_one_read l s'"
  by (rule loop_never_blocks) (simp add: after_one_read_def run_start_def)

text \<open>
  Once the loop has decided to return, only the emit goroutine steps; each of its
  steps decreases the work left, and until \<open>Run\<close> has returned it has a step: \<open>Run\<close>
  returns after at most \<open>emit_work\<close> steps, at most 2050 of them.
\<close>

lemma run_shuts_down:
  assumes "run_reach unmarshal reads s" and "result s \<noteq> None"
  shows "(run_step unmarshal s l s' \<longrightarrow> l = Emit \<and> result s' = result s \<and> emit_work s' < emit_work s)
    \<and> (returned s \<or> (\<exists>t. run_step unmarshal s Emit t))
    \<and> emit_work s \<le> 2050"
proof (intro conjI impI)
  note inv = run_reach_inv [OF assms(1)]
  show "returned s \<or> (\<exists>t. run_step unmarshal s Emit t)"
    by (rule emit_progress [OF inv assms(2)])
  show "emit_work s \<le> 2050"
    using inv by (auto simp: run_inv_def emit_work_def emitChanSize_def)
  assume "run_step unmarshal s l s'"
  from emit_work_step [OF this assms(2) inv]
  show "l = Emit" and "result s' = result s" and "emit_work s' < emit_work s"
    by simp_all
qed

end
