(* ===== verification/Service.thy ===== *)
theory Service
  imports StoreProps Watch AdapterRun
begin

text \<open>
  \<open>internal/core/ports/ports.go\<close> and \<open>internal/core/services/service.go\<close>: the service
  between the providers and the repository. A provider is what its two methods do: \<open>Send\<close>
  is a function on the provider's state, \<open>Run\<close> is seen through the error it returns. The
  repository is its \<open>Write\<close> and \<open>Watch\<close>. The package \<open>errgroup\<close> is not part of the
  repository: \<open>Group.Wait\<close> is the parameter \<open>wait\<close>, on the errors of the goroutines in
  the order they end.
\<close>

section \<open>Interfaces\<close>

type_synonym 's writer = "event \<Rightarrow> 's \<Rightarrow> string result \<times> 's"

type_synonym 'w send = "directive \<Rightarrow> 'w \<Rightarrow> go_error option \<times> 'w"

text \<open>
  The contract of \<open>Repository.Write\<close> the service relies on: an offset within the bounds of
  the wire contract, and a change that is remembered once the write has succeeded.
\<close>

locale event_store =
  fixes Write :: "'s writer" and remembers :: "'s \<Rightarrow> event \<Rightarrow> bool"
  assumes offset_bounds: "Write e s = (Inr off, s') \<Longrightarrow> 3 \<le> length off \<and> length off \<le> 64"
    and write_remembers: "Write e s = (Inr off, s') \<Longrightarrow> remembers s' e"

section \<open>The service\<close>

record ('s, 'w) service =
  providers :: "'w send list"
  repo :: "'s writer"

definition NewService :: "'w send list \<Rightarrow> 's writer option \<Rightarrow> ('s, 'w) service result" where
  "NewService ps r =
     (case r of
        None \<Rightarrow> Inl (ErrorString ''services: repository is required'')
      | Some wr \<Rightarrow> Inr \<lparr>providers = ps, repo = wr\<rparr>)"

text \<open>The state behind the repository and the identifiers of the events logged as errors.\<close>

record 's svc_state =
  store :: 's
  error_log :: "string list"

definition handleEvent :: "('s, 'w) service \<Rightarrow> 's svc_state emit" where
  "handleEvent svc e st =
     (case repo svc e (store st) of
        (Inr off, s') \<Rightarrow> (None, st\<lparr>store := s'\<rparr>)
      | (Inl err, s') \<Rightarrow>
          if err_is err ContextCanceled then (Some err, st\<lparr>store := s'\<rparr>)
          else (Some err, st\<lparr>store := s', error_log := error_log st @ [ev_ID e]\<rparr>))"

text \<open>What the goroutine of a provider returns for the error of its \<open>Run\<close>.\<close>

definition provider_result :: "go_error option \<Rightarrow> go_error option" where
  "provider_result err =
     (case err of
        None \<Rightarrow> None
      | Some e \<Rightarrow> if err_is e ContextCanceled then None else Some e)"

text \<open>
  \<open>Start\<close>: \<open>ctx_err\<close> is the error of the context once it is done, \<open>ends\<close> the errors of the
  providers' \<open>Run\<close> in the order they return.
\<close>

definition Start ::
  "(go_error option list \<Rightarrow> go_error option) \<Rightarrow> ('s, 'w) service \<Rightarrow> go_error option \<Rightarrow> go_error option list
    \<Rightarrow> go_error option" where
  "Start wait svc ctx_err ends =
     (if length (providers svc) = 0 then ctx_err else wait (map provider_result ends))"

text \<open>What \<open>errgroup\<close> documents: \<open>Wait\<close> returns the first error that is not nil, if any.\<close>

definition first_error :: "go_error option list \<Rightarrow> go_error option" where
  "first_error = (\<lambda>es. case filter (\<lambda>e. e \<noteq> None) es of [] \<Rightarrow> None | e # _ \<Rightarrow> e)"

definition errgroup_wait :: "(go_error option list \<Rightarrow> go_error option) \<Rightarrow> bool" where
  "errgroup_wait wait \<longleftrightarrow> (\<forall>es. wait es = first_error es)"

datatype rpc_code = Code_OK | Code_UNIMPLEMENTED | Code_INTERNAL

record rpc_status =
  rs_Code :: rpc_code
  rs_Message :: string

fun publish_loop :: "'w send list \<Rightarrow> directive \<Rightarrow> 'w \<Rightarrow> bool \<times> 'w" where
  "publish_loop [] d w = (False, w)"
| "publish_loop (p # ps) d w =
     (case p d w of
        (None, w') \<Rightarrow> (True, w')
      | (Some err, w') \<Rightarrow> publish_loop ps d w')"

definition Publish ::
  "('s, 'w) service \<Rightarrow> directive \<Rightarrow> 'w \<Rightarrow> (string \<times> rpc_status \<times> go_error option) \<times> 'w" where
  "Publish svc d w =
     (case publish_loop (providers svc) d w of
        (True, w') \<Rightarrow> ((dir_ID d, \<lparr>rs_Code = Code_OK, rs_Message = ''''\<rparr>, None), w')
      | (False, w') \<Rightarrow>
          ((dir_ID d, \<lparr>rs_Code = Code_UNIMPLEMENTED,
              rs_Message = ''no provider handled directive: '' @ dir_Name d\<rparr>, None), w'))"

definition Subscribe ::
  "(event_type list \<Rightarrow> string option \<Rightarrow> 'd deliver \<Rightarrow> 'r) \<Rightarrow> event_type list \<Rightarrow> string option
    \<Rightarrow> 'd deliver \<Rightarrow> 'r" where
  "Subscribe watch types offset send = watch types offset send"

text \<open>\<open>ReadConfiguration\<close> never calls \<open>send\<close>; it waits for the context.\<close>

definition ReadConfiguration :: "(configuration \<Rightarrow> 'd \<Rightarrow> go_error option \<times> 'd) \<Rightarrow> watch_in list \<Rightarrow> 'd \<Rightarrow> outcome \<times> 'd" where
  "ReadConfiguration send ins d = (wait_done ins, d)"

text \<open>\<open>Adapter.Send\<close> of the QUUPPA provider.\<close>

definition quuppa_Send :: "'w send" where
  "quuppa_Send d w = (Some (ErrorString ''quuppa: Send not implemented''), w)"

section \<open>The repository is an event store\<close>

lemma length_encodeOffset: "3 \<le> length (encodeOffset seq) \<and> length (encodeOffset seq) \<le> 64"
  using length_FormatUint [of seq]
  by (auto simp: encodeOffset_def Let_def length_concat sum_list_replicate)

lemma publish_offset: "Repository.publish N subj e r = (Inr off, r') \<Longrightarrow> \<exists>seq. off = encodeOffset seq"
  by (auto simp: publish_def split: sum.splits prod.splits)

lemma Write_offset: "Repository.Write N e r = (Inr off, r') \<Longrightarrow> \<exists>seq. off = encodeOffset seq"
  by (auto simp: Write_def dest: publish_offset split: sum.splits prod.splits option.splits)

interpretation jetstream: event_store "Repository.Write N" change_known for N :: "'w nats"
proof unfold_locales
  fix e off and s s' :: "'w repository"
  assume w: "Repository.Write N e s = (Inr off, s')"
  then obtain seq where "off = encodeOffset seq" using Write_offset by blast
  then show "3 \<le> length off \<and> length off \<le> 64" using length_encodeOffset by simp
  show "change_known s' e" by (rule Write_known [OF w])
qed

text \<open>What the service makes of the contract, for any store.\<close>

context event_store begin

lemma handleEvent_ok:
  assumes "repo svc = Write" and "handleEvent svc e st = (None, st')"
  shows "remembers (store st') e \<and> error_log st' = error_log st"
proof -
  obtain res s' where w: "Write e (store st) = (res, s')" by force
  with assms obtain off where res: "res = Inr off" and st': "st' = st\<lparr>store := s'\<rparr>"
    by (cases res) (auto simp: handleEvent_def split: if_splits)
  with write_remembers [of e "store st" off s'] w show ?thesis by simp
qed

lemma handleEvent_fails:
  assumes "repo svc = Write" and "handleEvent svc e st = (Some err, st')"
  shows "\<exists>s'. Write e (store st) = (Inl err, s')
    \<and> error_log st' = error_log st @ (if err_is err ContextCanceled then [] else [ev_ID e])"
  using assms by (auto simp: handleEvent_def split: sum.splits prod.splits if_splits)

end

section \<open>Errors of marshal\<close>

text \<open>No error of the encoder is a cancelled context.\<close>

definition text_error :: "'a result \<Rightarrow> bool" where
  "text_error r \<longleftrightarrow> (\<forall>err. r = Inl err \<longrightarrow> (\<exists>msg. err = ErrorString msg))"

lemma text_error_rbind: "text_error r \<Longrightarrow> (\<And>x. text_error (f x)) \<Longrightarrow> text_error (rbind r f)"
  by (cases r) (auto simp: text_error_def)

lemma text_error_Inr [simp]: "text_error (Inr x)"
  by (simp add: text_error_def)

lemma text_error_leaf [simp]: "text_error (enc_float f)" "text_error (enc_time t)"
  by (simp_all add: text_error_def enc_float_def enc_time_def)

lemma text_error_opt: "(\<And>x. text_error (enc x)) \<Longrightarrow> text_error (enc_opt enc k p)"
  by (cases p) (auto simp: enc_opt_def intro: text_error_rbind)

lemma text_error_marshal: "text_error (marshal e)"
proof -
  have point: "text_error (enc_point p)" for p
    unfolding enc_point_def by (intro text_error_rbind) simp_all
  have location: "text_error (enc_location l)" for l
    unfolding enc_location_def by (intro text_error_rbind text_error_opt point) simp_all
  have presence: "text_error (enc_presence p)" for p
    unfolding enc_presence_def by (intro text_error_rbind) simp_all
  have command: "text_error (enc_command c)" for c
    by (simp add: enc_command_def)
  have state: "text_error (enc_state s)" for s
    unfolding enc_state_def by (intro text_error_rbind text_error_opt location presence command) simp_all
  have actor: "text_error (enc_actor a)" for a
    by (simp add: enc_actor_def)
  have event: "text_error (enc_event w)" for w
    unfolding enc_event_def by (intro text_error_rbind actor state) simp_all
  show ?thesis
    unfolding marshal_def by (intro text_error_rbind event) simp_all
qed

section \<open>Properties\<close>

text \<open>
  An event handed to the service over the JetStream repository is either written, and
  then known as the last change of its actor, or its write error is returned; the failure
  is logged unless it is the cancellation of a shutdown.
\<close>

lemma handleEvent_outcome:
  assumes "repo svc = Repository.Write N"
  shows "case handleEvent svc e st of
      (None, st') \<Rightarrow> change_known (store st') e \<and> error_log st' = error_log st
    | (Some err, st') \<Rightarrow> (\<exists>r'. Repository.Write N e (store st) = (Inl err, r'))
        \<and> error_log st' = error_log st @ (if err_is err ContextCanceled then [] else [ev_ID e])"
proof -
  obtain res st' where h: "handleEvent svc e st = (res, st')" by force
  show ?thesis
  proof (cases res)
    case None
    with jetstream.handleEvent_ok [OF assms] h show ?thesis by simp
  next
    case (Some err)
    with jetstream.handleEvent_fails [OF assms] h show ?thesis by simp
  qed
qed

definition jetstream_service :: "'w nats \<Rightarrow> ('w repository, unit) service" where
  "jetstream_service N = \<lparr>providers = [quuppa_Send], repo = Repository.Write N\<rparr>"

lemma jetstream_service_simps [simp]:
  "repo (jetstream_service N) = Repository.Write N" "providers (jetstream_service N) = [quuppa_Send]"
  by (simp_all add: jetstream_service_def)

definition idle :: "mem repository svc_state" where
  "idle = \<lparr>store = fresh, error_log = []\<rparr>"

lemma Start_first_fault:
  assumes "errgroup_wait wait" and "providers svc \<noteq> []"
  shows "Start wait svc ctx_err ends =
    (case filter (\<lambda>e. e \<noteq> None \<and> \<not> err_is (the e) ContextCanceled) ends of [] \<Rightarrow> None | e # _ \<Rightarrow> e)"
proof -
  have "first_error (map provider_result ends) =
      (case filter (\<lambda>e. e \<noteq> None \<and> \<not> err_is (the e) ContextCanceled) ends of [] \<Rightarrow> None | e # _ \<Rightarrow> e)"
  proof (induction ends)
    case (Cons e ends)
    then show ?case by (cases e) (auto simp: first_error_def provider_result_def)
  qed (simp add: first_error_def)
  with assms show ?thesis by (simp add: Start_def errgroup_wait_def)
qed

text \<open>
  With providers registered, \<open>Start\<close> returns the first error that ends a provider and is
  not a cancellation, and no error when every provider ended without one or cancelled.
\<close>

lemma Start_fails_fast:
  assumes "errgroup_wait wait" and "providers svc \<noteq> []"
  shows "Start wait svc ctx_err ends =
    (case filter (\<lambda>e. e \<noteq> None \<and> \<not> err_is (the e) ContextCanceled) ends of [] \<Rightarrow> None | e # _ \<Rightarrow> e)"
  by (rule Start_first_fault [OF assms])

lemma Write_cancelled:
  assumes "\<And>subj data w. fst (js_PublishMsg N subj data w) = Inl ContextCanceled"
    and "\<exists>p. marshal e = Inr p" and "Repository.Write N e r = (Inl err, r')"
  shows "err_is err ContextCanceled"
  using Write_error_cause [OF assms(3)] assms(1,2) by auto

text \<open>
  C34: when the context is cancelled and NATS therefore refuses every publish, the service
  stops without an error: the write that fails is not logged as a fault, and neither is the
  error the adapter wraps it in returned by \<open>Start\<close>.
\<close>

theorem shutdown_is_clean:
  assumes "errgroup_wait wait" and "providers svc \<noteq> []" and "repo svc = Repository.Write N"
    and "\<And>subj data w. fst (js_PublishMsg N subj data w) = Inl ContextCanceled"
    and "\<exists>p. marshal e = Inr p" and "handleEvent svc e st = (Some err, st')"
  shows "Start wait svc ctx_err [Some (Wrapped ''quuppa: emit: '' err)] = None \<and> error_log st' = error_log st"
proof -
  from jetstream.handleEvent_fails [OF assms(3,6)] obtain r' where
    "Repository.Write N e (store st) = (Inl err, r')"
    and log: "error_log st' = error_log st @ (if err_is err ContextCanceled then [] else [ev_ID e])" by blast
  from Write_cancelled [OF assms(4,5) this(1)] have "err_is err ContextCanceled" .
  with log assms(1,2) show ?thesis
    by (simp add: Start_def errgroup_wait_def first_error_def provider_result_def)
qed

theorem shutdown_is_clean_witness:
  "Start first_error (jetstream_service dead_stream) None [Some (Wrapped ''quuppa: emit: ''
     (Wrapped (''jetstream: write raw event '' @ ev_ID sample_event) ContextCanceled))] = None"
proof -
  have run: "handleEvent (jetstream_service dead_stream) sample_event idle =
      (Some (Wrapped (''jetstream: write raw event '' @ ev_ID sample_event) ContextCanceled), idle)"
    by (simp add: handleEvent_def idle_def dead_stream_write)
  have "\<exists>p. marshal sample_event = Inr p" using marshal_payload_of [OF sample_event_ok] by blast
  from shutdown_is_clean [OF _ _ _ _ this run, of first_error dead_stream None] show ?thesis
    by (simp add: errgroup_wait_def dead_stream_def)
qed

text \<open>The first packet of a tag in a zone derives one zone event, at its response time.\<close>

lemma first_packet:
  assumes "tid \<noteq> ''''" and "0 < sint t"
  shows "fst (handle_datagram sim_unmarshal Map.empty (positionPkt tid (z # zs) t u) clk)
    = [zoneEvent (received (positionPkt tid (z # zs) t u)) (time_UnixMilli t) (z # zs) 0]"
proof -
  have "\<not> time_is_zero (time_UnixMilli t)" using assms(2) by (intro time_UnixMilli_nonzero) simp
  moreover have "ResponseTS (received (positionPkt tid (z # zs) t u)) = t"
    by (simp add: received_def positionPkt_def)
  ultimately show ?thesis
    using assms
    by (simp add: handle_datagram_def tag_state_def new_tagState_def derive_defs hadHistory_def
        isLocationType_def normaliseZones_def time_is_zero_def Let_def)
qed

lemma Write_unmarshallable:
  assumes "marshal e = Inl cause"
  shows "Repository.Write N e r
    = (Inl (Wrapped (''jetstream: write raw event '' @ ev_ID e) (Wrapped ''marshal'' cause)), r)"
  using assms by (simp add: Write_def publish_def)

text \<open>
  C31: one datagram with a response time in the year 10000 or later is accepted, but its event
  cannot be written, and the error is no cancellation: the adapter ends with it and \<open>Start\<close>
  returns it, which takes every provider down.
\<close>

theorem bad_timestamp_stops_service:
  assumes "errgroup_wait wait" and "providers svc \<noteq> []" and "repo svc = Repository.Write N"
    and "tid \<noteq> ''''" and "253402300800000 \<le> sint t"
  shows "\<exists>e err. fst (handle_datagram sim_unmarshal Map.empty (positionPkt tid (z # zs) t u) clk) = [e]
    \<and> fst (handleEvent svc e st) = Some err
    \<and> Start wait svc None [Some (Wrapped ''quuppa: emit: '' err)] = Some (Wrapped ''quuppa: emit: '' err)"
proof -
  let ?e = "zoneEvent (received (positionPkt tid (z # zs) t u)) (time_UnixMilli t) (z # zs) 0"
  have "\<not> time_json_ok (time_UnixMilli t)"
    using assms(5) by (simp add: time_json_ok_UnixMilli)
  then have "\<not> (\<exists>p. marshal ?e = Inr p)" using marshal_Inr_iff [of ?e] by (simp add: zoneEvent_def)
  then obtain msg where fail: "marshal ?e = Inl (ErrorString msg)"
    using text_error_marshal [of ?e] by (cases "marshal ?e") (auto simp: text_error_def)
  let ?err = "Wrapped (''jetstream: write raw event '' @ ev_ID ?e) (Wrapped ''marshal'' (ErrorString msg))"
  have "fst (handleEvent svc ?e st) = Some ?err"
    by (simp add: handleEvent_def assms(3) Write_unmarshallable [OF fail])
  moreover have "Start wait svc None [Some (Wrapped ''quuppa: emit: '' ?err)] = Some (Wrapped ''quuppa: emit: '' ?err)"
    using assms(1,2) by (simp add: Start_def errgroup_wait_def first_error_def provider_result_def)
  moreover have "fst (handle_datagram sim_unmarshal Map.empty (positionPkt tid (z # zs) t u) clk) = [?e]"
    by (rule first_packet) (use assms(4,5) in simp_all)
  ultimately show ?thesis by blast
qed

theorem bad_timestamp_stops_service_witness:
  "\<exists>e err. fst (handle_datagram sim_unmarshal Map.empty (positionPkt ''tag'' [''pool''] 253402300800000 0) time_zero) = [e]
    \<and> fst (handleEvent (jetstream_service mem_nats) e idle) = Some err
    \<and> Start first_error (jetstream_service mem_nats) None [Some (Wrapped ''quuppa: emit: '' err)]
        = Some (Wrapped ''quuppa: emit: '' err)"
  by (rule bad_timestamp_stops_service) (simp_all add: errgroup_wait_def)

text \<open>
  A directive is offered to the providers in their order until one accepts it, and to
  none after that; the caller always gets the directive's identifier back, with OK if some
  provider accepted and UNIMPLEMENTED naming the directive otherwise, never an error.
\<close>

lemma publish_routes:
  assumes "providers svc = map (\<lambda>i d w. (answer i, w @ [i])) ids"
  shows "Publish svc d [] =
    ((dir_ID d,
      if \<exists>i \<in> set ids. answer i = None then \<lparr>rs_Code = Code_OK, rs_Message = ''''\<rparr>
      else \<lparr>rs_Code = Code_UNIMPLEMENTED, rs_Message = ''no provider handled directive: '' @ dir_Name d\<rparr>,
      None),
     takeWhile (\<lambda>i. answer i \<noteq> None) ids @ take 1 (dropWhile (\<lambda>i. answer i \<noteq> None) ids))"
proof -
  have "publish_loop (map (\<lambda>i d w. (answer i, w @ [i])) ids) d w =
      (\<exists>i \<in> set ids. answer i = None,
       w @ takeWhile (\<lambda>i. answer i \<noteq> None) ids @ take 1 (dropWhile (\<lambda>i. answer i \<noteq> None) ids))" for w
  proof (induction ids arbitrary: w)
    case (Cons i ids)
    then show ?case by (cases "answer i") auto
  qed simp
  from this [of "[]"] assms show ?thesis
    by (cases "\<exists>i \<in> set ids. answer i = None") (simp_all only: Publish_def append_Nil prod.case bool.case if_True if_False)
qed

end
