(* ===== verification/Grpc.thy ===== *)
theory Grpc
  imports Service
begin

text \<open>
  The gRPC side: \<open>internal/adapters/grpc/adapter.go\<close> (conversions between the domain types
  and the wire messages, the three RPC handlers) and
  \<open>internal/adapters/grpc/server/interceptors\<close>. The wire messages are generated code
  outside the repository: a record per message with the fields the code sets, an
  enumeration with a constructor for numbers the program does not know. Parameters are
  \<open>new_ts\<close> (\<open>timestamppb.New\<close>), the validator, the stream's \<open>Send\<close>, and \<open>show_err\<close>, the text
  of an error. What \<open>Recv\<close> returns is a list of outcomes chosen by the client.
\<close>

section \<open>float32\<close>

type_synonym float32 = "32 word"

text \<open>
  Go's conversion \<open>float32(x)\<close> on bit patterns: the nearest value, ties to even, infinity
  beyond the greatest; a NaN keeps its sign and the top of its payload and is made quiet.
\<close>

definition round_even :: "nat \<Rightarrow> nat \<Rightarrow> nat" where
  "round_even n sh =
     (let q = n div 2 ^ sh; r = n mod 2 ^ sh; half = 2 ^ (sh - 1)
      in if half < r \<or> (r = half \<and> odd q) then q + 1 else q)"

definition to_float32 :: "float64 \<Rightarrow> float32" where
  "to_float32 f =
     (let n = unat f;
          s = n div 2 ^ 63; e = n div 2 ^ 52 mod 2 ^ 11; m = n mod 2 ^ 52
      in of_nat (s * 2 ^ 31 +
           (if e = 2047 then
              (if m = 0 then 255 * 2 ^ 23 else 255 * 2 ^ 23 + 2 ^ 22 + m div 2 ^ 29 mod 2 ^ 22)
            else if 897 \<le> e then min (255 * 2 ^ 23) ((e - 897) * 2 ^ 23 + round_even (2 ^ 52 + m) 29)
            else round_even ((if e = 0 then 0 else 2 ^ 52) + m) (926 - max e 1))))"

section \<open>Wire messages\<close>

datatype pb_event_type =
    EVENT_TYPE_UNSPECIFIED
  | EVENT_TYPE_ZONE
  | EVENT_TYPE_PRESENCE
  | EVENT_TYPE_COMMAND
  | EVENT_TYPE_other int

datatype pb_presence_type =
    PRESENCE_TYPE_UNSPECIFIED
  | PRESENCE_TYPE_ACTIVE
  | PRESENCE_TYPE_INACTIVE
  | PRESENCE_TYPE_other int

record pb_actor =
  pa_Id :: string
  pa_Metadata :: str_map

record pb_point =
  pp_X :: float32
  pp_Y :: float32
  pp_Z :: float32

record pb_location =
  pl_Point :: "pb_point option"
  pl_Zones :: "string list"

record 'ts pb_presence =
  ppr_Type :: pb_presence_type
  ppr_Since :: 'ts

record pb_command =
  pc_Id :: string
  pc_Name :: string
  pc_Arguments :: str_map

record 'ts pb_state =
  ps_Location :: "pb_location option"
  ps_Presence :: "'ts pb_presence"
  ps_Command :: "pb_command option"

record 'ts pb_event =
  pe_Id :: string
  pe_Type :: pb_event_type
  pe_Actor :: pb_actor
  pe_State :: "'ts pb_state"
  pe_Timestamp :: 'ts

record pb_polygon =
  pg_Vertices :: "pb_point list"

record pb_zone =
  pz_Id :: string
  pz_Name :: string
  pz_Polygon :: pb_polygon

record pb_configuration =
  pcf_Zones :: "pb_zone list"

record pb_directive =
  pd_Id :: string
  pd_Name :: string
  pd_Arguments :: str_map

record subscribe_request =
  rq_Types :: "pb_event_type list"
  rq_Offset :: "string option"

record 'ts subscribe_response =
  sr_Events :: "'ts pb_event list"
  sr_Offset :: string

record publish_response =
  pr_DirectiveId :: string
  pr_Status :: rpc_status

section \<open>pb to domain\<close>

definition pbEventTypeToDomain :: "pb_event_type \<Rightarrow> event_type" where
  "pbEventTypeToDomain t =
     (case t of
        EVENT_TYPE_ZONE \<Rightarrow> EventTypeZone
      | EVENT_TYPE_PRESENCE \<Rightarrow> EventTypePresence
      | EVENT_TYPE_COMMAND \<Rightarrow> EventTypeCommand
      | _ \<Rightarrow> EventTypeUnspecified)"

definition pbDirectiveToDomain :: "pb_directive option \<Rightarrow> directive" where
  "pbDirectiveToDomain p =
     (case p of
        None \<Rightarrow> \<lparr>dir_ID = '''', dir_Name = '''', dir_Arguments = fmempty\<rparr>
      | Some d \<Rightarrow> \<lparr>dir_ID = pd_Id d, dir_Name = pd_Name d, dir_Arguments = pd_Arguments d\<rparr>)"

section \<open>domain to pb\<close>

definition domainEventTypeToPb :: "event_type \<Rightarrow> pb_event_type" where
  "domainEventTypeToPb t =
     (if t = EventTypeZone then EVENT_TYPE_ZONE
      else if t = EventTypePresence then EVENT_TYPE_PRESENCE
      else if t = EventTypeCommand then EVENT_TYPE_COMMAND
      else EVENT_TYPE_UNSPECIFIED)"

definition domainActorToPb :: "actor \<Rightarrow> pb_actor" where
  "domainActorToPb a = \<lparr>pa_Id = actor_ID a, pa_Metadata = actor_Metadata a\<rparr>"

definition point_to_pb :: "point \<Rightarrow> pb_point" where
  "point_to_pb p = \<lparr>pp_X = to_float32 (pt_X p), pp_Y = to_float32 (pt_Y p), pp_Z = to_float32 (pt_Z p)\<rparr>"

definition domainPointToPb :: "point option \<Rightarrow> pb_point option" where
  "domainPointToPb p = (case p of None \<Rightarrow> None | Some q \<Rightarrow> Some (point_to_pb q))"

definition domainLocationToPb :: "location option \<Rightarrow> pb_location option" where
  "domainLocationToPb l =
     (case l of None \<Rightarrow> None
      | Some x \<Rightarrow> Some \<lparr>pl_Point = domainPointToPb (loc_Point x), pl_Zones = loc_Zones x\<rparr>)"

definition domainPresenceTypeToPb :: "presence_type \<Rightarrow> pb_presence_type" where
  "domainPresenceTypeToPb t =
     (if t = PresenceTypeActive then PRESENCE_TYPE_ACTIVE
      else if t = PresenceTypeInactive then PRESENCE_TYPE_INACTIVE
      else PRESENCE_TYPE_UNSPECIFIED)"

definition domainPresenceToPb :: "(gotime \<Rightarrow> 'ts) \<Rightarrow> presence \<Rightarrow> 'ts pb_presence" where
  "domainPresenceToPb new_ts p =
     \<lparr>ppr_Type = domainPresenceTypeToPb (pres_Type p), ppr_Since = new_ts (pres_Since p)\<rparr>"

definition domainCommandToPb :: "command option \<Rightarrow> pb_command option" where
  "domainCommandToPb c =
     (case c of None \<Rightarrow> None
      | Some x \<Rightarrow> Some \<lparr>pc_Id = cmd_ID x, pc_Name = cmd_Name x, pc_Arguments = cmd_Arguments x\<rparr>)"

definition domainStateToPb :: "(gotime \<Rightarrow> 'ts) \<Rightarrow> state \<Rightarrow> 'ts pb_state" where
  "domainStateToPb new_ts s =
     \<lparr>ps_Location = domainLocationToPb (st_Location s),
      ps_Presence = domainPresenceToPb new_ts (st_Presence s),
      ps_Command = domainCommandToPb (st_Command s)\<rparr>"

definition domainEventToPb :: "(gotime \<Rightarrow> 'ts) \<Rightarrow> event \<Rightarrow> 'ts pb_event" where
  "domainEventToPb new_ts e =
     \<lparr>pe_Id = ev_ID e, pe_Type = domainEventTypeToPb (ev_Type e), pe_Actor = domainActorToPb (ev_Actor e),
      pe_State = domainStateToPb new_ts (ev_State e), pe_Timestamp = new_ts (ev_Timestamp e)\<rparr>"

definition domainPolygonToPb :: "polygon \<Rightarrow> pb_polygon" where
  "domainPolygonToPb p = \<lparr>pg_Vertices = map point_to_pb (poly_Vertices p)\<rparr>"

definition domainZoneToPb :: "zone \<Rightarrow> pb_zone" where
  "domainZoneToPb z = \<lparr>pz_Id = zone_ID z, pz_Name = zone_Name z, pz_Polygon = domainPolygonToPb (zone_Polygon z)\<rparr>"

definition domainConfigurationToPb :: "configuration \<Rightarrow> pb_configuration" where
  "domainConfigurationToPb cfg = \<lparr>pcf_Zones = map domainZoneToPb (cfg_Zones cfg)\<rparr>"

section \<open>The handlers\<close>

definition codes_InvalidArgument :: int where "codes_InvalidArgument = 3"
definition codes_Internal :: int where "codes_Internal = 13"

definition Core_Subscribe ::
  "(event_type list \<Rightarrow> string option \<Rightarrow> 'd deliver \<Rightarrow> 'r) \<Rightarrow> (gotime \<Rightarrow> 'ts)
    \<Rightarrow> ('ts subscribe_response \<Rightarrow> 'd \<Rightarrow> go_error option \<times> 'd) \<Rightarrow> subscribe_request \<Rightarrow> 'r" where
  "Core_Subscribe watch new_ts send req =
     Subscribe watch (map pbEventTypeToDomain (rq_Types req)) (rq_Offset req)
       (\<lambda>e off d. send \<lparr>sr_Events = [domainEventToPb new_ts e], sr_Offset = off\<rparr> d)"

definition Core_ReadConfiguration ::
  "(pb_configuration \<Rightarrow> 'd \<Rightarrow> go_error option \<times> 'd) \<Rightarrow> watch_in list \<Rightarrow> 'd \<Rightarrow> outcome \<times> 'd" where
  "Core_ReadConfiguration send ins d =
     ReadConfiguration (\<lambda>cfg. send (domainConfigurationToPb cfg)) ins d"

text \<open>What \<open>Recv\<close> returns: a message or an error.\<close>

datatype 'm recv = Recv 'm | RecvErr go_error

type_synonym publish_request = "pb_directive option"

text \<open>The loop of the bidirectional \<open>Publish\<close>, over the service's \<open>Publish\<close>.\<close>

fun Core_Publish ::
  "(go_error \<Rightarrow> string) \<Rightarrow> (directive \<Rightarrow> 'w \<Rightarrow> (string \<times> rpc_status \<times> go_error option) \<times> 'w)
    \<Rightarrow> (publish_response \<Rightarrow> 'd \<Rightarrow> go_error option \<times> 'd)
    \<Rightarrow> publish_request recv list \<Rightarrow> 'w \<Rightarrow> 'd \<Rightarrow> outcome \<times> 'w \<times> 'd" where
  "Core_Publish show_err service_Publish send [] w d = (Blocked, w, d)"
| "Core_Publish show_err service_Publish send (RecvErr err # ins) w d =
     (Returned (if err = IoEOF then None else Some (StatusError codes_Internal (show_err err))), w, d)"
| "Core_Publish show_err service_Publish send (Recv msg # ins) w d =
     (case service_Publish (pbDirectiveToDomain msg) w of
        ((did, st, err), w') \<Rightarrow>
          let st' = (case err of None \<Rightarrow> st
                     | Some e \<Rightarrow> \<lparr>rs_Code = Code_INTERNAL, rs_Message = show_err e\<rparr>)
          in (case send \<lparr>pr_DirectiveId = did, pr_Status = st'\<rparr> d of
                (Some serr, d') \<Rightarrow> (Returned (Some (StatusError codes_Internal (show_err serr))), w', d')
              | (None, d') \<Rightarrow> Core_Publish show_err service_Publish send ins w' d'))"

section \<open>Interceptors\<close>

text \<open>\<open>RecvMsg\<close> of the validating stream: a received message is validated before it is handed on.\<close>

definition validating_RecvMsg ::
  "(go_error \<Rightarrow> string) \<Rightarrow> ('m \<Rightarrow> go_error option) \<Rightarrow> 'm recv \<Rightarrow> 'm recv" where
  "validating_RecvMsg show_err validate x =
     (case x of
        RecvErr err \<Rightarrow> RecvErr err
      | Recv msg \<Rightarrow>
          (case validate msg of
             Some err \<Rightarrow> RecvErr (StatusError codes_InvalidArgument (show_err err))
           | None \<Rightarrow> Recv msg))"

text \<open>The interceptors around a handler; \<open>new_err\<close> is the error of \<open>protovalidate.New\<close>.\<close>

definition ValidateStream ::
  "(go_error \<Rightarrow> string) \<Rightarrow> go_error option \<Rightarrow> ('m \<Rightarrow> go_error option)
    \<Rightarrow> ('m recv list \<Rightarrow> 'x \<Rightarrow> outcome \<times> 'x) \<Rightarrow> 'm recv list \<Rightarrow> 'x \<Rightarrow> outcome \<times> 'x" where
  "ValidateStream show_err new_err validate handler ins x =
     (case new_err of
        Some err \<Rightarrow> (Returned (Some err), x)
      | None \<Rightarrow> handler (map (validating_RecvMsg show_err validate) ins) x)"

definition MonitorStream :: "('i \<Rightarrow> 'x \<Rightarrow> outcome \<times> 'x) \<Rightarrow> 'i \<Rightarrow> 'x \<Rightarrow> outcome \<times> 'x" where
  "MonitorStream handler ins x =
     (case handler ins x of
        (Returned (Some err), x') \<Rightarrow>
          if err = ContextCanceled then (Returned None, x') else (Returned (Some err), x')
      | r \<Rightarrow> r)"

text \<open>The chain the server installs: validation outside, monitoring inside.\<close>

definition serve_stream ::
  "(go_error \<Rightarrow> string) \<Rightarrow> go_error option \<Rightarrow> ('m \<Rightarrow> go_error option)
    \<Rightarrow> ('m recv list \<Rightarrow> 'x \<Rightarrow> outcome \<times> 'x) \<Rightarrow> 'm recv list \<Rightarrow> 'x \<Rightarrow> outcome \<times> 'x" where
  "serve_stream show_err new_err validate handler =
     ValidateStream show_err new_err validate (MonitorStream handler)"

section \<open>Facts\<close>

lemma pbEventTypeToDomain_toPb:
  "t \<in> {EventTypeUnspecified, EventTypeZone, EventTypePresence, EventTypeCommand} \<Longrightarrow>
    pbEventTypeToDomain (domainEventTypeToPb t) = t"
  by (auto simp: pbEventTypeToDomain_def domainEventTypeToPb_def)

text \<open>A callback that never fails and keeps what it is given.\<close>

lemma watch_for_collecting:
  "watch_for (\<lambda>e off d. (None, d @ [f e off])) ins d = (loop_end ins, d @ map (\<lambda>(e, off). f e off) (due ins))"
proof (induction ins arbitrary: d)
  case (Cons i ins)
  show ?case
  proof (cases i)
    case (Msg m)
    with Cons show ?thesis by (cases "decode m") (auto split: prod.splits)
  qed simp_all
qed simp

text \<open>The response a message gets from a service that answers with \<open>answer\<close>.\<close>

definition response ::
  "(go_error \<Rightarrow> string) \<Rightarrow> (directive \<Rightarrow> string \<times> rpc_status \<times> go_error option) \<Rightarrow> publish_request \<Rightarrow> publish_response" where
  "response show_err answer msg =
     (case answer (pbDirectiveToDomain msg) of (did, st, err) \<Rightarrow>
        \<lparr>pr_DirectiveId = did,
         pr_Status = (case err of None \<Rightarrow> st | Some e \<Rightarrow> \<lparr>rs_Code = Code_INTERNAL, rs_Message = show_err e\<rparr>)\<rparr>)"

lemma Core_Publish_messages:
  "Core_Publish show_err (\<lambda>dir w. (answer dir, w)) (\<lambda>r d. (None, d @ [r])) (map Recv msgs @ rest) w d
    = Core_Publish show_err (\<lambda>dir w. (answer dir, w)) (\<lambda>r d. (None, d @ [r])) rest w
        (d @ map (response show_err answer) msgs)"
proof (induction msgs arbitrary: d)
  case (Cons msg msgs)
  obtain did st err where "answer (pbDirectiveToDomain msg) = (did, st, err)" using prod_cases3 by blast
  with Cons show ?case by (simp add: response_def)
qed simp

section \<open>Properties\<close>

text \<open>
  C21: a client that subscribes is sent one response for each message due, in order, with the
  event converted and the offset of the message; when its context is cancelled the RPC ends
  without an error, as the monitoring interceptor intends, and every subscription it
  opened has been released.
\<close>

theorem subscribe_stream:
  assumes "watchSubjects (map pbEventTypeToDomain (rq_Types req)) \<noteq> []"
    and "watch_opts (rq_Offset req) = Inr opts"
    and "subscribe_all S opts (watchSubjects (map pbEventTypeToDomain (rq_Types req))) [] w = (Inr subs, w1)"
    and "loop_end ins = Returned (Some ContextCanceled)"
  shows "MonitorStream
      (\<lambda>ins (w, d). Core_Subscribe (\<lambda>types off dl. Watch S types off dl ins w d) new_ts
          (\<lambda>r d. (None, d @ [r])) req) ins (w, [])
    = (Returned None, unsubscribe_all S subs w1,
       map (\<lambda>(e, off). \<lparr>sr_Events = [domainEventToPb new_ts e], sr_Offset = off\<rparr>) (due ins))"
  using assms
    watch_for_collecting [of "\<lambda>e off. \<lparr>sr_Events = [domainEventToPb new_ts e], sr_Offset = off\<rparr>" ins "[]"]
  by (simp add: MonitorStream_def Core_Subscribe_def Subscribe_def Watch_def Let_def)

theorem subscribe_stream_witness:
  "MonitorStream
      (\<lambda>ins (w, d). Core_Subscribe (\<lambda>types off dl. Watch mem_subs types off dl ins w d) unix_ns
          (\<lambda>r d. (None, d @ [r])) \<lparr>rq_Types = [EVENT_TYPE_ZONE], rq_Offset = None\<rparr>)
      [Msg sample_msg, Done ContextCanceled] ({}, [])
    = (Returned None, {}, [\<lparr>sr_Events = [domainEventToPb unix_ns sample_event], sr_Offset = ''007''\<rparr>])"
  using subscribe_stream [of "\<lparr>rq_Types = [EVENT_TYPE_ZONE], rq_Offset = None\<rparr>"
      "[DeliverLastPerSubject, AckNone]" mem_subs "{}" "[0]" "{0}" "[Msg sample_msg, Done ContextCanceled]" unix_ns]
    mem_subscribe_one
  by (simp add: watch_opts_def decode_sample pbEventTypeToDomain_def watchSubjects_def subject_of_type_def
      unsubscribe_all_def mem_subs_def)

text \<open>
  On the \<open>Publish\<close> stream every message gets exactly one response, in order, with its
  directive's identifier and the service's status; a service error becomes an INTERNAL status
  in the response and does not end the stream. The end of the client's side ends the RPC
  without an error, any other error of the transport with an internal error.
\<close>

lemma publish_stream:
  "Core_Publish show_err (\<lambda>dir w. (answer dir, w)) (\<lambda>r d. (None, d @ [r])) (map Recv msgs @ [RecvErr err]) w []
    = (Returned (if err = IoEOF then None else Some (StatusError codes_Internal (show_err err))), w,
       map (response show_err answer) msgs)"
  by (simp add: Core_Publish_messages)

text \<open>
  C35: a message that fails validation ends the \<open>Publish\<close> stream, without a response and
  without reading further, although the messages before it were answered; and the error the
  client sees is an internal one: the handler rewraps the interceptor's InvalidArgument.
\<close>

theorem publish_invalid_is_internal:
  assumes "list_all (\<lambda>m. validate m = None) msgs" and "validate bad = Some verr"
  shows "serve_stream show_err None validate
      (\<lambda>ins (w, d). Core_Publish show_err (\<lambda>dir w. (answer dir, w)) (\<lambda>r d. (None, d @ [r])) ins w d)
      (map Recv msgs @ Recv bad # rest) (w, [])
    = (Returned (Some (StatusError codes_Internal (show_err (StatusError codes_InvalidArgument (show_err verr))))),
       w, map (response show_err answer) msgs)"
proof -
  have "map (validating_RecvMsg show_err validate) (map Recv msgs) = map Recv msgs"
    using assms(1) by (induction msgs) (simp_all add: validating_RecvMsg_def)
  then have "map (validating_RecvMsg show_err validate) (map Recv msgs @ Recv bad # rest) =
      map Recv msgs @ RecvErr (StatusError codes_InvalidArgument (show_err verr))
        # map (validating_RecvMsg show_err validate) rest"
    using assms(2) by (simp add: validating_RecvMsg_def del: map_map)
  then show ?thesis
    by (simp add: serve_stream_def ValidateStream_def MonitorStream_def Core_Publish_messages
        del: map_map map_append)
qed

theorem publish_invalid_is_internal_witness:
  "serve_stream (\<lambda>e. ''text'') None (\<lambda>m. if m = None then Some (ErrorString ''no directive'') else None)
      (\<lambda>ins (w, d). Core_Publish (\<lambda>e. ''text'') (\<lambda>dir w. ((dir_ID dir, \<lparr>rs_Code = Code_OK, rs_Message = ''''\<rparr>, None), w))
         (\<lambda>r d. (None, d @ [r])) ins w d)
      (map Recv [] @ Recv None # []) ((), [])
    = (Returned (Some (StatusError codes_Internal ''text'')), (), map (response (\<lambda>e. ''text'') (\<lambda>dir. (dir_ID dir, \<lparr>rs_Code = Code_OK, rs_Message = ''''\<rparr>, None))) [])"
  by (rule publish_invalid_is_internal [where verr = "ErrorString ''no directive''"]) simp_all

text \<open>
  The wire message of an event determines it: two events of known types with the same
  message have the same identifier, type, actor, metadata, zones, presence, command and
  times, and their points agree in every coordinate at \<open>float32\<close> precision. In particular
  no two known types or presences are confused, and an event without a location is not
  confused with one that has an empty location.
\<close>

lemma pb_event_inject:
  assumes "inj new_ts" and "domainEventToPb new_ts e = domainEventToPb new_ts f"
    and "{ev_Type e, ev_Type f} \<subseteq> {EventTypeUnspecified, EventTypeZone, EventTypePresence, EventTypeCommand}"
    and "{ev_presence e, ev_presence f} \<subseteq> {PresenceTypeUnspecified, PresenceTypeActive, PresenceTypeInactive}"
  shows "ev_ID e = ev_ID f \<and> ev_Type e = ev_Type f \<and> ev_Actor e = ev_Actor f
    \<and> (st_Location (ev_State e) = None) = (st_Location (ev_State f) = None) \<and> ev_zones e = ev_zones f
    \<and> st_Presence (ev_State e) = st_Presence (ev_State f) \<and> st_Command (ev_State e) = st_Command (ev_State f)
    \<and> ev_Timestamp e = ev_Timestamp f
    \<and> map_option point_to_pb (ev_point e) = map_option point_to_pb (ev_point f)"
proof -
  note eq = assms(2) [unfolded domainEventToPb_def domainStateToPb_def domainPresenceToPb_def, simplified]
  have "pbEventTypeToDomain (domainEventTypeToPb (ev_Type e)) = pbEventTypeToDomain (domainEventTypeToPb (ev_Type f))"
    using eq by simp
  with assms(3) have type: "ev_Type e = ev_Type f" by (simp add: pbEventTypeToDomain_toPb)
  have "pres_Type (st_Presence (ev_State e)) = pres_Type (st_Presence (ev_State f))"
    using eq assms(4) by (auto simp: domainPresenceTypeToPb_def ev_presence_def split: if_splits)
  moreover have "pres_Since (st_Presence (ev_State e)) = pres_Since (st_Presence (ev_State f))"
    and time: "ev_Timestamp e = ev_Timestamp f"
    using eq assms(1) by (auto dest: injD)
  ultimately have pres: "st_Presence (ev_State e) = st_Presence (ev_State f)" by simp
  have actor: "ev_Actor e = ev_Actor f" using eq by (simp add: domainActorToPb_def)
  have loc: "domainLocationToPb (st_Location (ev_State e)) = domainLocationToPb (st_Location (ev_State f))"
    using eq by simp
  have cmd: "st_Command (ev_State e) = st_Command (ev_State f)"
    using eq by (auto simp: domainCommandToPb_def split: option.splits)
  have point: "domainPointToPb p = map_option point_to_pb p" for p
    by (simp add: domainPointToPb_def split: option.split)
  from loc have "(st_Location (ev_State e) = None) = (st_Location (ev_State f) = None)
      \<and> ev_zones e = ev_zones f \<and> map_option point_to_pb (ev_point e) = map_option point_to_pb (ev_point f)"
    by (auto simp: domainLocationToPb_def ev_zones_def ev_point_def point split: option.splits)
  with eq type actor pres cmd time show ?thesis by blast
qed

end
