(* ===== verification/Pipeline.thy ===== *)
theory Pipeline
  imports Grpc
begin

text \<open>
  Facts that join the adapter to the repository: what a subscriber reads from the stream
  about a tag, in terms of the datagrams read, when every derived event is written.
\<close>

lemma last_such_map: "last_such P f xs = map_option f (last_such P (\<lambda>x. x) xs)"
  by (simp add: last_such_def Let_def)

lemma last_such_filter: "last_such P f (filter Q xs) = last_such (\<lambda>x. Q x \<and> P x) f xs"
proof -
  have "filter P (filter Q xs) = filter (\<lambda>x. Q x \<and> P x) xs" by (induction xs) auto
  then show ?thesis by (simp add: last_such_def del: filter_filter)
qed

lemma last_presence_event:
  "last_presence a es = map_option ev_presence (last_such is_presence (\<lambda>e. e) (of_actor a es))"
  unfolding last_presence_def last_such_filter by (rule last_such_map)

lemma last_zones_event:
  "last_zones a es = map_option ev_zones (last_such is_zone (\<lambda>e. e) (of_actor a es))"
  unfolding last_zones_def last_such_filter by (rule last_such_map)

section \<open>The zones of derived events\<close>

lemma derive_zone_events:
  assumes "e \<in> set (fst (deriveEvents st msg now))" and "is_zone e"
  shows "ev_zones e = [] \<or> ev_zones e = curr_zones msg"
  using assms
  by (auto simp: derive_defs event_defs ev_zones_def Let_def split: if_splits)

lemma loop_read_distinct:
  assumes "read_ok decoder rd" and "e \<in> set (fst (loop_read decoder sts rd))" and "is_zone e"
  shows "distinct (ev_zones e)"
proof (cases rd)
  case (ReadPacket b clk)
  with assms(2) obtain msg where msg: "parseDatagram decoder b = Inr msg"
    by (auto simp: handle_datagram_def split: sum.splits)
  with assms(2) ReadPacket obtain st now where "e \<in> set (fst (deriveEvents st msg now))"
    by (auto simp: handle_datagram_def Let_def case_prod_beta split: if_splits)
  from derive_zone_events [OF this assms(3)] msg assms(1) ReadPacket show ?thesis by auto
next
  case (ReadDeadline ids now)
  with assms(1,2) obtain a where "e = watchdogEvent a (the (sts a)) now"
    by (auto simp: runWatchdog_collect)
  with assms(3) show ?thesis by (simp add: watchdogEvent_def)
next
  case (ReadError err)
  with assms(2) show ?thesis by simp
qed

lemma run_reads_distinct:
  assumes "list_all (read_ok decoder) reads"
  shows "\<forall>e \<in> set (fst (run (loop_read decoder) sts reads)). is_zone e \<longrightarrow> distinct (ev_zones e)"
  using assms
proof (induction reads arbitrary: sts)
  case (Cons rd reads)
  then have ok: "read_ok decoder rd" by simp
  have "\<forall>e \<in> set (fst (run (loop_read decoder) (snd (loop_read decoder sts rd)) reads)).
      is_zone e \<longrightarrow> distinct (ev_zones e)"
    using Cons by simp
  with loop_read_distinct [OF ok, of _ sts] show ?case by (auto simp: case_prod_beta)
qed simp

section \<open>What the stream shows\<close>

text \<open>The stream after every event derived from the reads has been written.\<close>

definition stream_after ::
  "'w nats \<Rightarrow> ('w \<Rightarrow> (string \<times> payload) list) \<Rightarrow> ('b \<Rightarrow> string + udpMsg) \<Rightarrow> 'w repository \<Rightarrow> 'b read list
    \<Rightarrow> (string \<times> payload) list" where
  "stream_after N log decoder r reads =
     log (world (snd (run (write_step N) r (fst (feed decoder reads)))))"

text \<open>What a new subscriber is shown of an actor: the last message of its presence and zone subjects.\<close>

definition snapshot :: "string \<Rightarrow> (string \<times> payload) list \<Rightarrow> event option" where
  "snapshot subj ms =
     (if on_subject subj ms = [] then None
      else case unmarshal (last (on_subject subj ms)) of Inl _ \<Rightarrow> None | Inr q \<Rightarrow> Some q)"

lemma snapshot_presence_shown:
  assumes "reliable N log kv A" and "starts_empty log kv r" and "events_ok A (fst (feed decoder reads))"
  shows "map_option ev_presence (snapshot (presenceSubject a) (stream_after N log decoder r reads))
    = last_presence a (fst (feed decoder reads))"
proof (cases "last_such is_presence (\<lambda>e. e) (of_actor a (fst (feed decoder reads)))")
  case None
  with no_change_no_message [OF assms(1,3,2), of "presenceSubject a" a is_presence] show ?thesis
    by (simp add: snapshot_def stream_after_def last_presence_event)
next
  case (Some e)
  from snapshot_presence [OF assms(1,3,2) Some refl] Some show ?thesis
    by (auto simp: snapshot_def stream_after_def last_presence_event same_presence_def)
qed

lemma snapshot_zones_shown:
  assumes "reliable N log kv A" and "starts_empty log kv r" and "events_ok A (fst (feed decoder reads))"
    and "list_all (read_ok decoder) reads"
  shows "(case snapshot (zoneSubject a) (stream_after N log decoder r reads) of None \<Rightarrow> {} | Some q \<Rightarrow> set (ev_zones q))
    = set (shown_zones a (fst (feed decoder reads)))"
proof (cases "last_such is_zone (\<lambda>e. e) (of_actor a (fst (feed decoder reads)))")
  case None
  with no_change_no_message [OF assms(1,3,2), of "zoneSubject a" a is_zone] show ?thesis
    by (simp add: snapshot_def stream_after_def last_zones_event shown_zones_def)
next
  case (Some e)
  from snapshot_zone [OF assms(1,3,2) Some refl] obtain q where
    q: "q \<in> set (fst (feed decoder reads))" "is_zone q" "same_zone q e"
    and msg: "snapshot (zoneSubject a) (stream_after N log decoder r reads) = Some q"
    by (auto simp: snapshot_def stream_after_def)
  have "distinct (ev_zones q)"
    using run_reads_distinct [OF assms(4), of Map.empty] q(1,2) by (simp add: feed_def)
  with q(3) have "set (ev_zones q) = set (ev_zones e)"
    by (intro distinct_subset_length_eq) (auto simp: same_zone_def repo_zonesEqual_iff)
  with msg Some show ?thesis by (simp add: shown_zones_def last_zones_event)
qed

lemma stream_after_empty:
  assumes "reliable N log kv A" and "starts_empty log kv r" and "events_ok A (fst (feed decoder reads))"
  shows "stream_after N log decoder r reads
    = messages (fst (run store_step (\<lambda>_. zero_actorState) (fst (feed decoder reads))))"
proof -
  have "store_state_of kv r = (\<lambda>_. zero_actorState)"
    using starts_empty_state [OF assms(2)] by blast
  moreover have "log (world r) = []" using assms(2) by (simp add: starts_empty_def)
  ultimately show ?thesis
    using writes_store(1) [OF assms(1,3) starts_empty_coherent [OF assms(2)]]
    by (simp add: stream_after_def)
qed

end
