(* ===== verification/Scenario.thy ===== *)
theory Scenario
  imports Pipeline
begin

text \<open>
  The assertions of \<open>cmd/quuppa-simulator/main.go\<close>: the checks over received events, the
  loop that waits for them in order, and the steps and checks of the \<open>lost\<close> scenario. What
  the waiting \<open>select\<close> takes next is a list of outcomes; a list that ends leaves the
  validator waiting.
\<close>

section \<open>Checks\<close>

type_synonym 'ts check = "'ts pb_event \<Rightarrow> bool"

definition zoneCheck :: "string \<Rightarrow> string list option \<Rightarrow> 'ts check" where
  "zoneCheck tid wantZones e =
     (if pe_Type e \<noteq> EVENT_TYPE_ZONE \<or> pa_Id (pe_Actor e) \<noteq> tid then False
      else case wantZones of
        None \<Rightarrow> True
      | Some want \<Rightarrow>
          let got = (case ps_Location (pe_State e) of None \<Rightarrow> [] | Some l \<Rightarrow> pl_Zones l)
          in if length got \<noteq> length want then False else list_all (\<lambda>z. z \<in> set want) got)"

definition presenceCheck :: "string \<Rightarrow> pb_presence_type \<Rightarrow> 'ts check" where
  "presenceCheck tid pt e =
     (pe_Type e = EVENT_TYPE_PRESENCE \<and> pa_Id (pe_Actor e) = tid \<and> ppr_Type (ps_Presence (pe_State e)) = pt)"

section \<open>Waiting for them\<close>

datatype 'ts check_in = Ev "'ts pb_event" | StreamClosed | TimerFired | CtxDone

text \<open>The answer, if there is one yet, and the input left.\<close>

fun waitForCheck :: "'ts check \<Rightarrow> 'ts check_in list \<Rightarrow> bool option \<times> 'ts check_in list" where
  "waitForCheck c [] = (None, [])"
| "waitForCheck c (Ev e # ins) = (if c e then (Some True, ins) else waitForCheck c ins)"
| "waitForCheck c (_ # ins) = (Some False, ins)"

fun runChecks :: "'ts check list \<Rightarrow> 'ts check_in list \<Rightarrow> bool option \<times> 'ts check_in list" where
  "runChecks [] ins = (Some True, ins)"
| "runChecks (c # cs) ins =
     (case waitForCheck c ins of
        (None, ins') \<Rightarrow> (None, ins')
      | (Some ok, ins') \<Rightarrow> if \<not> ok then (Some False, ins') else runChecks cs ins')"

section \<open>The scenario lost\<close>

definition lost_checks :: "string \<Rightarrow> string \<Rightarrow> 'ts check list" where
  "lost_checks tid z =
     [zoneCheck tid (Some [z]),
      presenceCheck tid PRESENCE_TYPE_INACTIVE,
      presenceCheck tid PRESENCE_TYPE_ACTIVE,
      zoneCheck tid None]"

text \<open>The three datagrams, each with the two clock readings taken when it is built.\<close>

definition lost_steps :: "string \<Rightarrow> string \<Rightarrow> (int64 \<times> int64) \<Rightarrow> (int64 \<times> int64) \<Rightarrow> (int64 \<times> int64) \<Rightarrow> datagram list" where
  "lost_steps tid z c1 c2 c3 =
     [positionPkt tid [z] (fst c1) (snd c1), noLocationPkt tid (fst c2) (snd c2),
      positionPkt tid [z] (fst c3) (snd c3)]"

text \<open>Checks on the wire messages, read back on the events they are made from.\<close>

lemma zoneCheck_event [simp]:
  "zoneCheck tid want (domainEventToPb new_ts e) \<longleftrightarrow> is_zone e \<and> ev_actor e = tid
     \<and> (case want of None \<Rightarrow> True | Some zs \<Rightarrow> length (ev_zones e) = length zs \<and> set (ev_zones e) \<subseteq> set zs)"
proof -
  have "(case domainLocationToPb l of None \<Rightarrow> [] | Some x \<Rightarrow> pl_Zones x) = (case l of None \<Rightarrow> [] | Some x \<Rightarrow> loc_Zones x)"
    for l by (simp add: domainLocationToPb_def split: option.split)
  then show ?thesis
    by (auto simp: zoneCheck_def domainEventToPb_def domainEventTypeToPb_def domainActorToPb_def
        domainStateToPb_def ev_zones_def list_all_iff Let_def split: option.splits)
qed

lemma presenceCheck_event [simp]:
  "presenceCheck tid PRESENCE_TYPE_ACTIVE (domainEventToPb new_ts e) \<longleftrightarrow>
     is_presence e \<and> ev_actor e = tid \<and> ev_presence e = PresenceTypeActive"
  "presenceCheck tid PRESENCE_TYPE_INACTIVE (domainEventToPb new_ts e) \<longleftrightarrow>
     is_presence e \<and> ev_actor e = tid \<and> ev_presence e = PresenceTypeInactive"
  by (auto simp: presenceCheck_def domainEventToPb_def domainEventTypeToPb_def domainActorToPb_def
      domainStateToPb_def domainPresenceToPb_def domainPresenceTypeToPb_def ev_presence_def)

section \<open>What a run of it derives\<close>

lemma isLocationType_simps [simp]: "isLocationType ''position''" "\<not> isLocationType ''noLocation''"
  by (simp_all add: isLocationType_def)

lemma lost_events:
  assumes "tid \<noteq> ''''" and "0 < sint (fst c1)" and "0 < sint (fst c2)" and "0 < sint (fst c3)"
    and m1_def: "m1 = received (positionPkt tid [z] (fst c1) (snd c1))"
    and m2_def: "m2 = received (noLocationPkt tid (fst c2) (snd c2))"
    and m3_def: "m3 = received (positionPkt tid [z] (fst c3) (snd c3))"
  shows "fst (feed sim_unmarshal (map (\<lambda>d. ReadPacket d clk) (lost_steps tid z c1 c2 c3))) =
    [zoneEvent m1 (time_UnixMilli (fst c1)) [z] 0,
     zoneEvent m2 (time_UnixMilli (fst c2)) [] 0,
     presenceEvent m2 (time_UnixMilli (fst c2)) [z] PresenceTypeInactive 1,
     presenceEvent m3 (time_UnixMilli (fst c3)) [z] PresenceTypeActive 0,
     zoneEvent m3 (time_UnixMilli (fst c3)) [z] 1]"
proof -
  let ?s1 = "snd (deriveEvents new_tagState m1 (time_UnixMilli (fst c1)))"
  let ?s2 = "snd (deriveEvents ?s1 m2 (time_UnixMilli (fst c2)))"
  have msgs [simp]: "LocationType m1 = ''position''" "curr_zones m1 = [z]" "LocationType m2 = ''noLocation''"
    "curr_zones m2 = []" "TagID m1 = tid" "TagID m2 = tid" "TagID m3 = tid"
    "ResponseTS m1 = fst c1" "ResponseTS m2 = fst c2" "ResponseTS m3 = fst c3" "LocationType m3 = ''position''" "curr_zones m3 = [z]"
    by (simp_all add: m1_def m2_def m3_def normaliseZones_def)
  have h1: "hadHistory ?s1" and h2: "hadHistory ?s2" by (simp_all add: hadHistory_seen)
  have d1: "fst (deriveEvents new_tagState m1 (time_UnixMilli (fst c1)))
      = [zoneEvent m1 (time_UnixMilli (fst c1)) [z] 0]"
    by (simp add: derive_first)
  have d2: "fst (deriveEvents ?s1 m2 (time_UnixMilli (fst c2)))
      = [zoneEvent m2 (time_UnixMilli (fst c2)) [] 0,
         presenceEvent m2 (time_UnixMilli (fst c2)) [z] PresenceTypeInactive 1]"
    by (subst derive_lost [OF h1]) (simp_all add: online_prefix_def online_count_def)
  have d3: "fst (deriveEvents ?s2 m3 (time_UnixMilli (fst c3)))
      = [presenceEvent m3 (time_UnixMilli (fst c3)) [z] PresenceTypeActive 0,
         zoneEvent m3 (time_UnixMilli (fst c3)) [z] 1]"
    by (subst derive_restored [OF h2]) (simp_all add: online_prefix_def online_count_def)
  note step = handle_datagram_accepted [OF parse_position [OF assms(1)]]
    handle_datagram_accepted [OF parse_noLocation [OF assms(1)]]
  show ?thesis
    using assms(2-4)
    by (simp add: feed_def lost_steps_def step tag_state_def case_prod_beta d1 d2 d3
        flip: m1_def m2_def m3_def)
qed

section \<open>Its events can be written\<close>

abbreviation ascii :: "string \<Rightarrow> bool" where
  "ascii s \<equiv> list_all (\<lambda>c. byte c < 128) s"

lemma ascii_dec_int: "ascii (dec_int n)"
proof -
  have "ascii (dec_nat k)" for k
    using dec_nat_digits [of _ k] by (force simp: list_all_iff is_digit_def)
  then show ?thesis by (simp add: dec_int_def)
qed

lemma valid_eventID: "ascii a \<Longrightarrow> valid_utf8 (eventID a now seq)"
  by (rule valid_ascii) (simp add: eventID_def ascii_dec_int)

lemma sim_event_ok:
  assumes "ascii tid" and "list_all ascii zs" and "time_json_ok now"
    and "m = received (positionPkt tid [z] t u) \<or> m = received (noLocationPkt tid t u)"
  shows "event_wire_ok (zoneEvent m now zs seq)" and "event_wire_ok (presenceEvent m now zs pt seq)"
proof -
  have tid: "TagID m = tid" using assms(4) by auto
  have md: "valid_map (actorMetadata m)"
    using assms(4) by (auto simp: actorMetadata_def put_nonempty_def sim_defs valid_ascii)
  have zs: "list_all valid_utf8 zs"
    using assms(2) by (auto simp: list_all_iff intro: valid_ascii)
  have pt: "pred_option (\<lambda>p. float_finite (pt_X p) \<and> float_finite (pt_Y p) \<and> float_finite (pt_Z p)) (pointFromMsg m)"
    using assms(4) by (auto simp: pointFromMsg_def sim_defs sim_location_def float_finite_def)
  show "event_wire_ok (zoneEvent m now zs seq)" "event_wire_ok (presenceEvent m now zs pt seq)"
    using assms(1,3) tid md zs pt
    by (auto simp: event_wire_ok_def wire_ok_defs toWireEvent_def toWireState_def event_defs
        valid_eventID valid_ascii split: option.split)
qed

text \<open>A run of the scenario in the first three seconds of the epoch.\<close>

definition lost_run :: "datagram read list" where
  "lost_run = map (\<lambda>d. ReadPacket d time_zero) (lost_steps ''tag'' ''pool'' (1000, 1000) (2000, 2000) (3000, 3000))"

lemma lost_run_ok: "events_ok {''tag''} (fst (feed sim_unmarshal lost_run))"
proof -
  have t: "time_json_ok (time_UnixMilli 1000)" "time_json_ok (time_UnixMilli 2000)" "time_json_ok (time_UnixMilli 3000)"
    by (simp_all add: time_json_ok_UnixMilli)
  show ?thesis
    unfolding lost_run_def
    by (subst lost_events [OF _ _ _ _ refl refl refl])
      (auto simp: events_ok_def t intro!: sim_event_ok [where tid = "''tag''" and z = "''pool''"])
qed

end
