(* ===== verification/SimulatorRuns.thy ===== *)
theory SimulatorRuns
  imports Scenario
begin

text \<open>
  The rest of \<open>cmd/quuppa-simulator/main.go\<close>: the subscriber with its bounded channel, the
  senders of the scenarios, their validators and \<open>main\<close> with its exit codes. What a blocking
  \<open>select\<close> or a sleep gives next is a list of outcomes; a list that ends leaves the goroutine
  waiting. The goroutines of different tags share nothing but the socket, so each is modelled
  by the datagrams it sends.
\<close>

section \<open>The subscriber\<close>

text \<open>
  \<open>subscribe\<close> returns a channel of 512 events filled by a goroutine; an event that finds it full
  is dropped. The labels are a response of the stream (its events), one send, the end of the stream, and
  an event taken by the reader of the channel.
\<close>

definition subChanSize :: nat where "subChanSize = 512"

record 'e sub_state =
  sub_ch :: "'e list"
  sub_closed :: bool
  sub_taken :: "'e list"
  sub_dropped :: "'e list"

definition sub_start :: "'e sub_state" where
  "sub_start = \<lparr>sub_ch = [], sub_closed = False, sub_taken = [], sub_dropped = []\<rparr>"

definition sub_send :: "'e \<Rightarrow> 'e sub_state \<Rightarrow> 'e sub_state" where
  "sub_send ev s =
     (if length (sub_ch s) < subChanSize then s\<lparr>sub_ch := sub_ch s @ [ev]\<rparr>
      else s\<lparr>sub_dropped := sub_dropped s @ [ev]\<rparr>)"

datatype 'e sub_label = SubResponse "'e list" | SubPut | SubEnd | SubTake

text \<open>
  The sends of one response are a loop of their own, in which the reader can take events; the
  events still to be sent make up \<open>rest\<close>.
\<close>

inductive sub_step :: "'e sub_state \<times> 'e list \<Rightarrow> 'e sub_label \<Rightarrow> 'e sub_state \<times> 'e list \<Rightarrow> bool" where
  sub_recv: "\<not> sub_closed s \<Longrightarrow> sub_step (s, []) (SubResponse evs) (s, evs)"
| sub_put: "sub_step (s, ev # rest) SubPut (sub_send ev s, rest)"
| sub_eof: "\<not> sub_closed s \<Longrightarrow> sub_step (s, []) SubEnd (s\<lparr>sub_closed := True\<rparr>, [])"
| sub_take: "sub_ch s = ev # evs \<Longrightarrow>
     sub_step (s, rest) SubTake (s\<lparr>sub_ch := evs, sub_taken := sub_taken s @ [ev]\<rparr>, rest)"

text \<open>The two errors \<open>subscribe\<close> returns before the goroutine starts.\<close>

definition subscribe_client :: "go_error option \<Rightarrow> go_error option \<Rightarrow> 'e sub_state result" where
  "subscribe_client dial_err stream_err =
     (case dial_err of
        Some err \<Rightarrow> Inl (Wrapped ''dial'' err)
      | None \<Rightarrow>
          (case stream_err of
             Some err \<Rightarrow> Inl (Wrapped ''subscribe'' err)
           | None \<Rightarrow> Inr sub_start))"

text \<open>The events of the responses received, in order.\<close>

definition responses :: "'e sub_label list \<Rightarrow> 'e list" where
  "responses ls = concat (map (\<lambda>l. case l of SubResponse evs \<Rightarrow> evs | _ \<Rightarrow> []) ls)"

section \<open>Senders\<close>

text \<open>
  What a sender's \<open>select\<close> or loop takes next: the end of the context, a tick (or, where the code
  does not wait for one, the moment it goes on) with the two clock readings of the datagram
  built then and the error of \<open>Write\<close>, or the end of the silence.
\<close>

datatype sim_in = SimDone | SimTick int64 int64 "go_error option" | SimElapsed

text \<open>\<open>emit\<close>: a datagram whose write fails is not sent, and the sender goes on.\<close>

definition emit_pkt :: "go_error option \<Rightarrow> datagram \<Rightarrow> datagram list" where
  "emit_pkt err d = (case err of Some _ \<Rightarrow> [] | None \<Rightarrow> [d])"

text \<open>
  The goroutine of one tag, for each scenario: the datagrams sent, and whether it has returned.
  An outcome its \<open>select\<close> does not offer cannot occur and is skipped.
\<close>

fun walk_tag :: "string \<Rightarrow> string list \<Rightarrow> nat \<Rightarrow> sim_in list \<Rightarrow> datagram list \<times> bool" where
  "walk_tag tid zs idx [] = ([], False)"
| "walk_tag tid zs idx (SimDone # ins) = ([], True)"
| "walk_tag tid zs idx (SimTick t u err # ins) =
     (case walk_tag tid zs (idx + 1) ins of
        (sent, ret) \<Rightarrow> (emit_pkt err (positionPkt tid [zs ! (idx mod length zs)] t u) @ sent, ret))"
| "walk_tag tid zs idx (SimElapsed # ins) = walk_tag tid zs idx ins"

text \<open>\<open>j\<close> counts the packets of the burst; after three the tag is silent.\<close>

fun offline_tag :: "string \<Rightarrow> string \<Rightarrow> nat \<Rightarrow> sim_in list \<Rightarrow> datagram list \<times> bool" where
  "offline_tag tid z j [] = ([], False)"
| "offline_tag tid z j (SimDone # ins) = ([], True)"
| "offline_tag tid z j (SimTick t u err # ins) =
     (if j < 3 then
        (case offline_tag tid z (j + 1) ins of
           (sent, ret) \<Rightarrow> (emit_pkt err (positionPkt tid [z] t u) @ sent, ret))
      else offline_tag tid z j ins)"
| "offline_tag tid z j (SimElapsed # ins) =
     (if j < 3 then offline_tag tid z j ins else offline_tag tid z 0 ins)"

fun lost_tag :: "string \<Rightarrow> string \<Rightarrow> bool \<Rightarrow> sim_in list \<Rightarrow> datagram list \<times> bool" where
  "lost_tag tid z hasLoc [] = ([], False)"
| "lost_tag tid z hasLoc (SimDone # ins) = ([], True)"
| "lost_tag tid z hasLoc (SimTick t u err # ins) =
     (case lost_tag tid z (\<not> hasLoc) ins of
        (sent, ret) \<Rightarrow>
          (emit_pkt err (if hasLoc then positionPkt tid [z] t u else noLocationPkt tid t u) @ sent, ret))"
| "lost_tag tid z hasLoc (SimElapsed # ins) = lost_tag tid z hasLoc ins"

fun stress_tag :: "string \<Rightarrow> string \<Rightarrow> sim_in list \<Rightarrow> datagram list \<times> bool" where
  "stress_tag tid z [] = ([], False)"
| "stress_tag tid z (SimDone # ins) = ([], True)"
| "stress_tag tid z (SimTick t u err # ins) =
     (case stress_tag tid z ins of (sent, ret) \<Rightarrow> (emit_pkt err (positionPkt tid [z] t u) @ sent, ret))"
| "stress_tag tid z (SimElapsed # ins) = stress_tag tid z ins"

text \<open>
  One goroutine per tag, each with its own outcomes; \<open>wg.Wait\<close> returns when all have. The
  result lists what each tag sent.
\<close>

definition all_tags :: "nat \<Rightarrow> (nat \<Rightarrow> datagram list \<times> bool) \<Rightarrow> datagram list list \<times> bool" where
  "all_tags tags tag = (map (\<lambda>i. fst (tag i)) [0..<tags], list_all (\<lambda>i. snd (tag i)) [0..<tags])"

definition runWalk :: "nat \<Rightarrow> string list \<Rightarrow> (nat \<Rightarrow> sim_in list) \<Rightarrow> datagram list list \<times> bool" where
  "runWalk tags zs ins = all_tags tags (\<lambda>i. walk_tag (tagID i) zs 0 (ins i))"

definition runOffline :: "nat \<Rightarrow> string list \<Rightarrow> (nat \<Rightarrow> sim_in list) \<Rightarrow> datagram list list \<times> bool" where
  "runOffline tags zs ins = all_tags tags (\<lambda>i. offline_tag (tagID i) (zs ! 0) 0 (ins i))"

definition runLost :: "nat \<Rightarrow> string list \<Rightarrow> (nat \<Rightarrow> sim_in list) \<Rightarrow> datagram list list \<times> bool" where
  "runLost tags zs ins = all_tags tags (\<lambda>i. lost_tag (tagID i) (zs ! 0) True (ins i))"

definition runStress :: "nat \<Rightarrow> string list \<Rightarrow> (nat \<Rightarrow> sim_in list) \<Rightarrow> datagram list list \<times> bool" where
  "runStress tags zs ins = all_tags tags (\<lambda>i. stress_tag (tagID i) (zs ! 0) (ins i))"

section \<open>Validators\<close>

text \<open>What \<open>validateWalk\<close> sends and checks for one tag; \<open>cs\<close> are the clock readings.\<close>

definition walk_packets :: "string \<Rightarrow> string list \<Rightarrow> (int64 \<times> int64) list \<Rightarrow> datagram list" where
  "walk_packets tid zs cs = map (\<lambda>(z, c). positionPkt tid [z] (fst c) (snd c)) (zip zs cs)"

definition walk_checks :: "string \<Rightarrow> string list \<Rightarrow> 'ts check list" where
  "walk_checks tid zs = map (\<lambda>z. zoneCheck tid (Some [z])) zs"

text \<open>
  The loop over the tags: \<open>arrive i\<close> is what reaches the channel while tag \<open>i\<close> is validated,
  \<open>carry\<close> what is left in it from the tags before.
\<close>

fun validate_tags ::
  "nat list \<Rightarrow> string list \<Rightarrow> (nat \<Rightarrow> 'ts check_in list) \<Rightarrow> 'ts check_in list \<Rightarrow> bool option" where
  "validate_tags [] zs arrive carry = Some True"
| "validate_tags (i # is) zs arrive carry =
     (case runChecks (walk_checks (tagID i) zs) (carry @ arrive i) of
        (None, _) \<Rightarrow> None
      | (Some ok, rest) \<Rightarrow> if \<not> ok then Some False else validate_tags is zs arrive rest)"

definition validateWalk :: "nat \<Rightarrow> string list \<Rightarrow> (nat \<Rightarrow> 'ts check_in list) \<Rightarrow> bool option" where
  "validateWalk tags zs arrive = validate_tags [0..<tags] zs arrive []"

definition offline_checks :: "string \<Rightarrow> 'ts check list" where
  "offline_checks tid =
     [zoneCheck tid None, presenceCheck tid PRESENCE_TYPE_INACTIVE, presenceCheck tid PRESENCE_TYPE_ACTIVE]"

text \<open>
  The goroutine of \<open>validateOffline\<close>: three packets (\<open>j\<close> counts them), 15 seconds of silence,
  one packet.
\<close>

fun offline_send :: "string \<Rightarrow> string \<Rightarrow> nat \<Rightarrow> sim_in list \<Rightarrow> datagram list" where
  "offline_send tid z j [] = []"
| "offline_send tid z j (SimDone # ins) = []"
| "offline_send tid z j (SimTick t u err # ins) =
     (if j < 3 then emit_pkt err (positionPkt tid [z] t u) @ offline_send tid z (j + 1) ins
      else if j = 4 then emit_pkt err (positionPkt tid [z] t u)
      else offline_send tid z j ins)"
| "offline_send tid z j (SimElapsed # ins) =
     (if j = 3 then offline_send tid z 4 ins else offline_send tid z j ins)"

definition validateOffline :: "'ts check_in list \<Rightarrow> bool option" where
  "validateOffline ins = fst (runChecks (offline_checks (tagID 0)) ins)"

text \<open>The goroutine of \<open>validateLost\<close> builds each datagram when its turn comes.\<close>

fun lost_send :: "(int64 \<Rightarrow> int64 \<Rightarrow> datagram) list \<Rightarrow> sim_in list \<Rightarrow> datagram list" where
  "lost_send [] ins = []"
| "lost_send (mkPkt # pkts) [] = []"
| "lost_send (mkPkt # pkts) (SimDone # ins) = []"
| "lost_send (mkPkt # pkts) (SimTick t u err # ins) = emit_pkt err (mkPkt t u) @ lost_send pkts ins"
| "lost_send (mkPkt # pkts) (SimElapsed # ins) = lost_send (mkPkt # pkts) ins"

definition validateLost :: "'ts check_in list \<Rightarrow> bool option" where
  "validateLost ins = fst (runChecks (lost_checks (tagID 0) ''zone-a'') ins)"

section \<open>main\<close>

record sim_flags =
  fl_scenario :: string
  fl_tags :: int64
  fl_zones :: string
  fl_validate :: bool

text \<open>The defaults of the flags.\<close>

definition default_flags :: sim_flags where
  "default_flags = \<lparr>fl_scenario = ''walk'', fl_tags = 1, fl_zones = ''zone-a,zone-b,zone-c'', fl_validate = False\<rparr>"

text \<open>\<open>strings.Split\<close> at a one-byte separator: always at least one part.\<close>

fun split_at :: "char \<Rightarrow> string \<Rightarrow> string list" where
  "split_at sep [] = [[]]"
| "split_at sep (c # cs) =
     (if c = sep then [] # split_at sep cs
      else case split_at sep cs of [] \<Rightarrow> [[c]] | p # ps \<Rightarrow> (c # p) # ps)"

text \<open>\<open>strings.TrimSpace\<close>: the UTF-8 forms of the characters \<open>unicode.IsSpace\<close> accepts.\<close>

definition space_forms :: "string list" where
  "space_forms = map (map (char_of :: nat \<Rightarrow> char))
     ([[9], [10], [11], [12], [13], [32], [0xC2, 0x85], [0xC2, 0xA0], [0xE1, 0x9A, 0x80],
       [0xE2, 0x80, 0xA8], [0xE2, 0x80, 0xA9], [0xE2, 0x80, 0xAF], [0xE2, 0x81, 0x9F], [0xE3, 0x80, 0x80]]
      @ map (\<lambda>k. [0xE2, 0x80, k]) [0x80..<0x8B])"

text \<open>Drop a form at the front as long as there is one; \<open>n\<close> bounds the rounds.\<close>

fun trim_front :: "string list \<Rightarrow> nat \<Rightarrow> string \<Rightarrow> string" where
  "trim_front forms 0 s = s"
| "trim_front forms (Suc n) s =
     (case filter (\<lambda>f. prefix f s) forms of
        [] \<Rightarrow> s
      | f # _ \<Rightarrow> trim_front forms n (drop (length f) s))"

definition TrimSpace :: "string \<Rightarrow> string" where
  "TrimSpace s =
     (let t = trim_front space_forms (length s) s
      in rev (trim_front (map rev space_forms) (length t) (rev t)))"

definition sim_zones :: "sim_flags \<Rightarrow> string list" where
  "sim_zones fl = map TrimSpace (split_at (CHR '','') (fl_zones fl))"

text \<open>
  \<open>main\<close> up to its exit: the errors of the dial and of \<open>subscribe\<close>, and \<open>passed\<close>, what the
  validator of the scenario returns when it is run (\<open>None\<close> while it waits), \<open>ended\<close> whether the
  senders of the scenario have returned. The status 0 is
  that of a \<open>main\<close> that returns.
\<close>

definition sim_main :: "sim_flags \<Rightarrow> go_error option \<Rightarrow> go_error option \<Rightarrow> (string \<Rightarrow> bool option) \<Rightarrow> (string \<Rightarrow> bool)
    \<Rightarrow> int option" where
  "sim_main fl dial_err sub_err passed ended =
     (if sint (fl_tags fl) < 1 then Some 2
      else if dial_err \<noteq> None then Some 2
      else if fl_validate fl \<and> fl_scenario fl \<noteq> ''stress'' \<and> sub_err \<noteq> None then Some 2
      else if fl_scenario fl \<notin> {''walk'', ''offline'', ''lost'', ''stress''} then Some 2
      else if fl_validate fl \<and> fl_scenario fl \<noteq> ''stress'' then
        (case passed (fl_scenario fl) of
           None \<Rightarrow> None
         | Some True \<Rightarrow> Some 0
         | Some False \<Rightarrow> Some 1)
      else if ended (fl_scenario fl) then Some 0 else None)"

section \<open>The subscriber keeps the order\<close>

definition sub_inv :: "'e sub_label list \<Rightarrow> 'e sub_state \<times> 'e list \<Rightarrow> bool" where
  "sub_inv ls x \<longleftrightarrow>
     (case x of (s, rest) \<Rightarrow>
        length (sub_ch s) \<le> subChanSize
        \<and> subseq (sub_taken s @ sub_ch s @ rest) (responses ls)
        \<and> length (responses ls) = length (sub_taken s @ sub_ch s @ rest) + length (sub_dropped s))"

lemma responses_snoc [simp]:
  "responses (ls @ [l]) = responses ls @ (case l of SubResponse evs \<Rightarrow> evs | _ \<Rightarrow> [])"
  by (simp add: responses_def)

lemma sub_inv_start: "sub_inv [] (sub_start, [])"
  by (simp add: sub_inv_def sub_start_def responses_def)

lemma sub_inv_step:
  assumes "sub_inv ls x" and "sub_step x l y"
  shows "sub_inv (ls @ [l]) y"
  using assms(2)
proof (cases rule: sub_step.cases)
  case (sub_recv s evs)
  with assms(1) list_emb_append_mono [of "(=)" "sub_taken s @ sub_ch s" "responses ls" evs evs] show ?thesis
    by (simp add: sub_inv_def)
next
  case (sub_put s ev rest)
  with assms(1) subseq_skip [of "sub_taken s @ sub_ch s" ev rest "responses ls"] show ?thesis
    by (auto simp: sub_inv_def sub_send_def)
qed (use assms(1) in \<open>auto simp: sub_inv_def\<close>)

text \<open>
  The simulator's subscriber, under every interleaving of its goroutine and the reader: the
  channel never holds more than 512 events; the events read, then those in the channel, then
  those of the current response still to be put are a subsequence of the events received, in
  their order, and every event not among them was dropped by a full channel.
\<close>

lemma subscriber_in_order:
  assumes "steps sub_step (sub_start, []) ls (s, rest)"
  shows "length (sub_ch s) \<le> 512
    \<and> subseq (sub_taken s @ sub_ch s @ rest) (responses ls)
    \<and> length (responses ls) = length (sub_taken s @ sub_ch s @ rest) + length (sub_dropped s)"
proof -
  have "sub_inv ls (s, rest)"
    by (rule steps_invariant [OF assms, where P = sub_inv]) (use sub_inv_start sub_inv_step in auto)
  then show ?thesis by (simp add: sub_inv_def subChanSize_def)
qed

end
