(* ===== verification/SimulatorProps.thy ===== *)
theory SimulatorProps
  imports SimulatorRuns
begin

text \<open>
  The simulator's validators against the modelled program: which events the adapter derives
  from the datagrams of the scenarios \<open>walk\<close> and \<open>offline\<close>, which change messages they leave
  in the stream, and that these satisfy the checks.
\<close>

section \<open>Tags have different identifiers\<close>

lemma dec_val_replicate_0 [simp]: "dec_val 0 (replicate k CHR ''0'' @ s) = dec_val 0 s"
  by (induction k) auto

lemma tagID_inject [simp]: "tagID i = tagID j \<longleftrightarrow> i = j"
proof
  assume "tagID i = tagID j"
  then have "dec_val 0 (pad4 i) = dec_val 0 (pad4 j)" by (simp add: tagID_def)
  then show "i = j" by (simp add: pad4_def Let_def)
qed simp

lemma tagID_not_Nil [simp]: "tagID i \<noteq> ''''"
  by (simp add: tagID_def)

lemma ascii_tagID: "ascii (tagID i)"
proof -
  have "ascii (dec_nat i)"
    using ascii_dec_int [of "int i"] by (simp add: dec_int_def)
  then show ?thesis by (auto simp: tagID_def pad4_def Let_def list_all_iff)
qed

section \<open>What walk derives\<close>

definition walk_reads :: "string \<Rightarrow> string list \<Rightarrow> (int64 \<times> int64) list \<Rightarrow> gotime \<Rightarrow> datagram read list" where
  "walk_reads tid zs cs clk = map (\<lambda>d. ReadPacket d clk) (walk_packets tid zs cs)"

text \<open>The zone event of one packet.\<close>

definition walk_event :: "string \<Rightarrow> string \<Rightarrow> int64 \<times> int64 \<Rightarrow> event" where
  "walk_event tid z c =
     zoneEvent (received (positionPkt tid [z] (fst c) (snd c))) (time_UnixMilli (fst c)) [z] 0"

definition walk_events :: "string \<Rightarrow> string list \<Rightarrow> (int64 \<times> int64) list \<Rightarrow> event list" where
  "walk_events tid zs cs = map (\<lambda>(z, c). walk_event tid z c) (zip zs cs)"

lemma walk_Cons:
  "walk_reads tid (z # zs) (c # cs) clk = ReadPacket (positionPkt tid [z] (fst c) (snd c)) clk # walk_reads tid zs cs clk"
  "walk_events tid (z # zs) (c # cs) = walk_event tid z c # walk_events tid zs cs"
  by (simp_all add: walk_reads_def walk_packets_def walk_events_def)

lemma walk_Nil [simp]: "walk_reads tid [] cs clk = []" "walk_events tid [] cs = []"
  by (simp_all add: walk_reads_def walk_packets_def walk_events_def)

definition clocks_ok :: "(int64 \<times> int64) list \<Rightarrow> bool" where
  "clocks_ok cs = list_all (\<lambda>c. 0 < sint (fst c) \<and> sint (fst c) < 253402300800000) cs"

text \<open>The state of a tag whose last packet had a fix in zone \<open>z\<close>.\<close>

definition in_zone :: "string \<Rightarrow> tagState \<Rightarrow> bool" where
  "in_zone z st \<longleftrightarrow> online st \<and> lastLocationType st = ''position'' \<and> lastZoneIds st = [z]
     \<and> lastMovementStatus st = ''moving'' \<and> locationLostAt st = time_zero
     \<and> name st = '''' \<and> groupName st = '''' \<and> lastKnownLocation st = sim_location"

lemma new_tagState_fields [simp]:
  "locationLostAt new_tagState = time_zero" "name new_tagState = ''''" "groupName new_tagState = ''''"
  by (simp_all add: new_tagState_def)

lemma walk_first:
  "deriveEvents new_tagState (received (positionPkt tid [z] t u)) now
     = ([zoneEvent (received (positionPkt tid [z] t u)) now [z] 0],
        update_state new_tagState (received (positionPkt tid [z] t u)) now time_zero)"
  by (simp add: derive_first normaliseZones_def)

lemma walk_next:
  assumes "in_zone z st"
  shows "deriveEvents st (received (positionPkt tid [z'] t u)) now
     = (if z' = z then [] else [zoneEvent (received (positionPkt tid [z'] t u)) now [z'] 0],
        update_state st (received (positionPkt tid [z'] t u)) now time_zero)"
proof -
  have "hadHistory st" using assms by (simp add: in_zone_def hadHistory_seen)
  with assms show ?thesis
    by (simp add: derive_tracked in_zone_def normaliseZones_def online_prefix_def online_count_def zonesEqual_iff)
qed

text \<open>A packet of the simulator sets the location and no names.\<close>

lemma update_position [simp]:
  "name (update_state st (received (positionPkt tid zs t u)) now lostAt) = name st"
  "groupName (update_state st (received (positionPkt tid zs t u)) now lostAt) = groupName st"
  "lastKnownLocation (update_state st (received (positionPkt tid zs t u)) now lostAt) = sim_location"
  by (simp_all add: update_state_def sim_defs isLocationType_def sim_location_def Let_def)

lemma in_zone_update [simp]:
  "name st = '''' \<Longrightarrow> groupName st = '''' \<Longrightarrow>
     in_zone z (update_state st (received (positionPkt tid [z] t u)) now time_zero)"
  by (simp add: in_zone_def normaliseZones_def)

lemma in_zone_names: "in_zone z st \<Longrightarrow> name st = '''' \<and> groupName st = ''''"
  by (simp add: in_zone_def)

lemma handle_position:
  assumes "tid \<noteq> ''''" and "0 < sint t"
  shows "handle_datagram sim_unmarshal S (positionPkt tid [z] t u) clk =
    (let (evs, st') = deriveEvents (tag_state S tid) (received (positionPkt tid [z] t u)) (time_UnixMilli t)
     in (evs, S(tid \<mapsto> st')))"
  by (simp add: handle_datagram_accepted [OF parse_position [OF assms]])

lemma walk_rest:
  assumes "tid \<noteq> ''''" and "clocks_ok cs" and "length cs = length zs" and "distinct_adj (z # zs)"
    and "S tid = Some st" and "in_zone z st"
  shows "fst (run (loop_read sim_unmarshal) S (walk_reads tid zs cs clk)) = walk_events tid zs cs
    \<and> (\<exists>st'. snd (run (loop_read sim_unmarshal) S (walk_reads tid zs cs clk)) = S(tid \<mapsto> st'))"
  using assms(2-6)
proof (induction zs arbitrary: cs z S st)
  case Nil
  then show ?case
    by (auto intro!: exI [of _ st])
next
  case (Cons y zs)
  then obtain c cs' where cs: "cs = c # cs'" by (cases cs) auto
  let ?m = "received (positionPkt tid [y] (fst c) (snd c))"
  let ?st = "update_state st ?m (time_UnixMilli (fst c)) time_zero"
  from Cons.prems(1) have c: "0 < sint (fst c)" and ok: "clocks_ok cs'" by (simp_all add: cs clocks_ok_def)
  from Cons.prems(3) have "y \<noteq> z" and adj: "distinct_adj (y # zs)" by auto
  then have step: "loop_read sim_unmarshal S (ReadPacket (positionPkt tid [y] (fst c) (snd c)) clk)
      = ([walk_event tid y c], S(tid \<mapsto> ?st))"
    using Cons.prems(4,5) by (simp add: handle_position [OF assms(1) c] tag_state_def walk_next walk_event_def)
  have len: "length cs' = length zs" using Cons.prems(2) cs by simp
  from in_zone_names [OF Cons.prems(5)] have "in_zone y ?st" by simp
  moreover have "(S(tid \<mapsto> ?st)) tid = Some ?st" by simp
  ultimately obtain st' where
    "fst (run (loop_read sim_unmarshal) (S(tid \<mapsto> ?st)) (walk_reads tid zs cs' clk)) = walk_events tid zs cs'"
    "snd (run (loop_read sim_unmarshal) (S(tid \<mapsto> ?st)) (walk_reads tid zs cs' clk)) = S(tid \<mapsto> st')"
    using Cons.IH [OF ok len adj, of "S(tid \<mapsto> ?st)" ?st] unfolding fun_upd_upd by blast
  then show ?case
    by (auto simp: cs walk_Cons step case_prod_beta simp del: loop_read.simps fun_upd_apply)
qed

text \<open>A tag never seen before derives one zone event per packet.\<close>

lemma walk_run:
  assumes "tid \<noteq> ''''" and "clocks_ok cs" and "length cs = length zs" and "distinct_adj zs" and "S tid = None"
  shows "fst (run (loop_read sim_unmarshal) S (walk_reads tid zs cs clk)) = walk_events tid zs cs
    \<and> (\<forall>a. a \<noteq> tid \<longrightarrow> snd (run (loop_read sim_unmarshal) S (walk_reads tid zs cs clk)) a = S a)"
proof (cases zs)
  case Nil
  then show ?thesis by simp
next
  case (Cons y ys)
  then obtain c cs' where cs: "cs = c # cs'" using assms(3) by (cases cs) auto
  let ?m = "received (positionPkt tid [y] (fst c) (snd c))"
  let ?st = "update_state new_tagState ?m (time_UnixMilli (fst c)) time_zero"
  from assms(2) have c: "0 < sint (fst c)" and ok: "clocks_ok cs'" by (simp_all add: cs clocks_ok_def)
  have step: "loop_read sim_unmarshal S (ReadPacket (positionPkt tid [y] (fst c) (snd c)) clk)
      = ([walk_event tid y c], S(tid \<mapsto> ?st))"
    using assms(5) by (simp add: handle_position [OF assms(1) c] tag_state_def walk_first walk_event_def)
  have len: "length cs' = length ys" using assms(3) cs Cons by simp
  have adj: "distinct_adj (y # ys)" using assms(4) Cons by simp
  have "in_zone y ?st" and "(S(tid \<mapsto> ?st)) tid = Some ?st" by simp_all
  then obtain st' where
    "fst (run (loop_read sim_unmarshal) (S(tid \<mapsto> ?st)) (walk_reads tid ys cs' clk)) = walk_events tid ys cs'"
    "snd (run (loop_read sim_unmarshal) (S(tid \<mapsto> ?st)) (walk_reads tid ys cs' clk)) = S(tid \<mapsto> st')"
    using walk_rest [OF assms(1) ok len adj, of "S(tid \<mapsto> ?st)" ?st clk] unfolding fun_upd_upd by blast
  then show ?thesis
    by (simp add: cs Cons walk_Cons step case_prod_beta del: loop_read.simps)
qed

text \<open>The tags one after the other.\<close>

lemma walk_all_run:
  assumes "\<And>i. i \<in> set is \<Longrightarrow> clocks_ok (cs i) \<and> length (cs i) = length zs \<and> S (tagID i) = None"
    and "distinct is" and "distinct_adj zs"
  shows "fst (run (loop_read sim_unmarshal) S (concat (map (\<lambda>i. walk_reads (tagID i) zs (cs i) clk) is)))
    = concat (map (\<lambda>i. walk_events (tagID i) zs (cs i)) is)"
  using assms(1,2)
proof (induction "is" arbitrary: S)
  case (Cons i "is")
  let ?S = "snd (run (loop_read sim_unmarshal) S (walk_reads (tagID i) zs (cs i) clk))"
  from walk_run [of "tagID i" "cs i" zs S clk] Cons.prems(1) [of i] assms(3) have
    one: "fst (run (loop_read sim_unmarshal) S (walk_reads (tagID i) zs (cs i) clk)) = walk_events (tagID i) zs (cs i)"
    and frame: "\<And>a. a \<noteq> tagID i \<Longrightarrow> ?S a = S a" by simp_all
  have "clocks_ok (cs j) \<and> length (cs j) = length zs \<and> ?S (tagID j) = None" if "j \<in> set is" for j
    using Cons.prems that frame [of "tagID j"] by auto
  with Cons.IH [of ?S] Cons.prems(2) show ?case by (simp add: run_append one case_prod_beta)
qed simp

section \<open>What the subscriber receives\<close>

text \<open>A message of the stream as the validator's channel carries it.\<close>

definition to_check_in :: "(gotime \<Rightarrow> 'ts) \<Rightarrow> payload \<Rightarrow> 'ts check_in" where
  "to_check_in new_ts p = (case unmarshal p of Inr e \<Rightarrow> Ev (domainEventToPb new_ts e) | Inl _ \<Rightarrow> StreamClosed)"

lemma to_check_in_payload [simp]:
  "event_wire_ok e \<Longrightarrow> to_check_in new_ts (payload_of e) = Ev (domainEventToPb new_ts e)"
  by (simp add: to_check_in_def)

lemma clocks_ok_time: "clocks_ok cs \<Longrightarrow> c \<in> set cs \<Longrightarrow> time_json_ok (time_UnixMilli (fst c))"
  by (auto simp: clocks_ok_def list_all_iff time_json_ok_UnixMilli)

lemma walk_event_ok:
  "ascii tid \<Longrightarrow> ascii z \<Longrightarrow> time_json_ok (time_UnixMilli (fst c)) \<Longrightarrow> event_wire_ok (walk_event tid z c)"
  unfolding walk_event_def by (rule sim_event_ok(1)) auto

lemma walk_events_ok:
  assumes "ascii tid" and "list_all ascii zs" and "clocks_ok cs" and "e \<in> set (walk_events tid zs cs)"
  shows "event_wire_ok e \<and> ev_actor e = tid \<and> is_zone e"
proof -
  from assms(4) obtain z c where e: "e = walk_event tid z c" "z \<in> set zs" "c \<in> set cs"
    by (auto simp: walk_events_def dest: set_zip_leftD set_zip_rightD)
  with assms(1-3) walk_event_ok [of tid z c] clocks_ok_time show ?thesis
    by (auto simp: list_all_iff walk_event_def)
qed

text \<open>Every event of \<open>walk\<close> is a change.\<close>

lemma walk_changes:
  assumes "length cs = length zs" and "distinct_adj zs" and "zs \<noteq> [] \<longrightarrow> \<not> (hasZones s \<and> zones s = [hd zs])"
  shows "fst (run changes s (walk_events tid zs cs)) = walk_events tid zs cs"
  using assms
proof (induction zs arbitrary: s cs)
  case (Cons z zs)
  then obtain c cs' where cs: "cs = c # cs'" by (cases cs) auto
  let ?e = "walk_event tid z c"
  have "\<not> zone_unchanged s ?e"
    using Cons.prems(3) by (auto simp: zone_unchanged_def walk_event_def repo_zonesEqual_iff length_Suc_conv)
  then have step: "changes s ?e = ([?e], zone_recorded s ?e)"
    by (simp add: changes_def walk_event_def)
  have "distinct_adj zs" and "zs \<noteq> [] \<longrightarrow> hd zs \<noteq> z"
    using Cons.prems(2) by (auto simp: distinct_adj_Cons)
  then have "zs \<noteq> [] \<longrightarrow> \<not> (hasZones (zone_recorded s ?e) \<and> zones (zone_recorded s ?e) = [hd zs])"
    by (auto simp: zone_recorded_def walk_event_def)
  with Cons.IH [of cs' "zone_recorded s ?e"] \<open>distinct_adj zs\<close> Cons.prems(1) cs show ?case
    by (simp add: walk_Cons step case_prod_beta)
qed simp

lemma walk_checks_pass:
  assumes "ascii tid" and "list_all ascii zs" and "clocks_ok cs" and "length cs = length zs"
  shows "runChecks (walk_checks tid zs)
      (map (\<lambda>e. Ev (domainEventToPb new_ts e)) (walk_events tid zs cs) @ rest) = (Some True, rest)"
  using assms(2-)
proof (induction zs arbitrary: cs)
  case (Cons z zs)
  then obtain c cs' where "cs = c # cs'" by (cases cs) auto
  with Cons show ?case by (simp add: walk_checks_def walk_Cons walk_event_def clocks_ok_def)
qed (simp add: walk_checks_def)

lemma walk_share:
  assumes "list_all ascii zs" and "\<And>j. j \<in> set is \<Longrightarrow> clocks_ok (cs j)" and "distinct is"
  shows "of_actor (tagID i) (concat (map (\<lambda>i. walk_events (tagID i) zs (cs i)) is))
    = (if i \<in> set is then walk_events (tagID i) zs (cs i) else [])"
  using assms(2,3)
proof (induction "is")
  case (Cons j "is")
  have "of_actor (tagID i) (walk_events (tagID j) zs (cs j)) = (if i = j then walk_events (tagID j) zs (cs j) else [])"
    using walk_events_ok [OF ascii_tagID assms(1), of "cs j" _ j] Cons.prems(1) [of j]
    by (auto simp: filter_empty_conv filter_id_conv)
  with Cons show ?case by auto
qed simp

text \<open>What arrives on the zone subject of a tag: its own zone events, all of them.\<close>

lemma walk_arrive:
  assumes "reliable N log kv A" and "starts_empty log kv r"
    and "distinct_adj zs" and "list_all ascii zs" and "clocks_ok cs" and "length cs = length zs"
    and "events_ok A (fst (feed sim_unmarshal reads))"
    and "of_actor (tagID i) (fst (feed sim_unmarshal reads)) = walk_events (tagID i) zs cs"
  shows "map (to_check_in new_ts) (on_subject (zoneSubject (tagID i)) (stream_after N log sim_unmarshal r reads))
    = map (\<lambda>e. Ev (domainEventToPb new_ts e)) (walk_events (tagID i) zs cs)"
proof -
  note one = walk_events_ok [OF ascii_tagID assms(4,5), of _ i]
  have "on_subject (zoneSubject (tagID i)) (stream_after N log sim_unmarshal r reads)
      = map payload_of (filter is_zone (fst (run changes zero_actorState (walk_events (tagID i) zs cs))))"
    unfolding stream_after_empty [OF assms(1,2,7)] by (simp add: on_subject_messages store_zone assms(8))
  also have "fst (run changes zero_actorState (walk_events (tagID i) zs cs)) = walk_events (tagID i) zs cs"
    using assms(3,6) by (intro walk_changes) (auto simp: zero_actorState_def)
  also have "filter is_zone (walk_events (tagID i) zs cs) = walk_events (tagID i) zs cs"
    using one by (auto simp: filter_id_conv)
  finally show ?thesis using one by auto
qed

section \<open>What offline derives\<close>

text \<open>Three packets in a zone, sweeps while the tag is silent, and a last packet.\<close>

definition offline_reads ::
  "string \<Rightarrow> string \<Rightarrow> (int64 \<times> int64) list \<Rightarrow> gotime list \<Rightarrow> int64 \<times> int64 \<Rightarrow> gotime \<Rightarrow> datagram read list" where
  "offline_reads tid z cs sweeps c4 clk =
     map (\<lambda>d. ReadPacket d clk) (offline_send tid z 0 (map (\<lambda>c. SimTick (fst c) (snd c) None) cs))
     @ map (\<lambda>now. ReadDeadline [tid] now) sweeps
     @ [ReadPacket (positionPkt tid [z] (fst c4) (snd c4)) clk]"

text \<open>Sweeps over a single tag: quiet until the first that finds it silent, and quiet after it.\<close>

lemma sweep_quiet:
  assumes "S tid = Some st" and "list_all (\<lambda>now. watchdog_skips st now) sweeps"
  shows "run (loop_read decoder) S (map (\<lambda>now. ReadDeadline [tid] now) sweeps) = ([], S)"
  using assms(2) by (induction sweeps) (simp_all add: assms(1))

lemma sweep_offline:
  assumes "S tid = Some st" and "online st" and "locationLostAt st = time_zero"
    and "\<exists>now \<in> set sweeps. OfflineThreshold \<le> time_Sub now (lastPacketTS st)"
  shows "\<exists>now \<in> set sweeps. run (loop_read decoder) S (map (\<lambda>now. ReadDeadline [tid] now) sweeps)
    = ([watchdogEvent tid st now], S(tid \<mapsto> st\<lparr>online := False\<rparr>))"
proof -
  have skips: "watchdog_skips st now \<longleftrightarrow> \<not> OfflineThreshold \<le> time_Sub now (lastPacketTS st)" for now
    using assms(2,3) by (auto simp: watchdog_skips_def time_is_zero_def)
  from split_list_first_prop [of sweeps "\<lambda>now. \<not> watchdog_skips st now"] assms(4) skips obtain before now after where
    sweeps: "sweeps = before @ now # after" and found: "\<not> watchdog_skips st now"
    and quiet: "\<And>x. x \<in> set before \<Longrightarrow> watchdog_skips st x" by blast
  let ?S = "S(tid \<mapsto> st\<lparr>online := False\<rparr>)"
  have 1: "run (loop_read decoder) S (map (\<lambda>now. ReadDeadline [tid] now) before) = ([], S)"
    by (rule sweep_quiet [of S tid st, OF assms(1)]) (simp add: list_all_iff quiet)
  have 2: "loop_read decoder S (ReadDeadline [tid] now) = ([watchdogEvent tid st now], ?S)"
    using found by (simp add: assms(1) collect_def)
  have 3: "run (loop_read decoder) ?S (map (\<lambda>now. ReadDeadline [tid] now) after) = ([], ?S)"
    by (rule sweep_quiet [of _ tid "st\<lparr>online := False\<rparr>"]) (simp_all add: list_all_iff watchdog_skips_def)
  have "run (loop_read decoder) S (map (\<lambda>now. ReadDeadline [tid] now) sweeps) = ([watchdogEvent tid st now], ?S)"
    by (simp add: sweeps run_append 1 2 3 del: loop_read.simps)
  with sweeps show ?thesis by auto
qed

text \<open>The packet that ends the silence.\<close>

lemma offline_resume:
  assumes "in_zone z st"
  shows "fst (deriveEvents (st\<lparr>online := False\<rparr>) (received (positionPkt tid [z] t u)) now)
    = [presenceEvent (received (positionPkt tid [z] t u)) now [z] PresenceTypeActive 0]"
proof -
  have "hadHistory (st\<lparr>online := False\<rparr>)" using assms by (simp add: in_zone_def hadHistory_seen)
  with assms show ?thesis
    by (simp add: derive_tracked in_zone_def normaliseZones_def online_prefix_def online_count_def zonesEqual_iff)
qed

lemma offline_events:
  assumes "tid \<noteq> ''''" and "clocks_ok [c1, c2, c3, c4]"
    and "\<exists>now \<in> set sweeps. OfflineThreshold \<le> time_Sub now (time_UnixMilli (snd c3))"
  shows "\<exists>now \<in> set sweeps. \<exists>st. in_zone z st
    \<and> fst (feed sim_unmarshal (offline_reads tid z [c1, c2, c3] sweeps c4 clk))
      = [walk_event tid z c1, watchdogEvent tid st now,
         presenceEvent (received (positionPkt tid [z] (fst c4) (snd c4))) (time_UnixMilli (fst c4)) [z] PresenceTypeActive 0]"
proof -
  let ?m = "\<lambda>c. received (positionPkt tid [z] (fst c) (snd c))" and ?t = "\<lambda>c :: int64 \<times> int64. time_UnixMilli (fst c)"
  let ?s1 = "update_state new_tagState (?m c1) (?t c1) time_zero"
  let ?s2 = "update_state ?s1 (?m c2) (?t c2) time_zero"
  obtain s3 where s3: "s3 = update_state ?s2 (?m c3) (?t c3) time_zero" by simp
  have pos: "0 < sint (fst c1)" "0 < sint (fst c2)" "0 < sint (fst c3)" "0 < sint (fst c4)"
    using assms(2) by (simp_all add: clocks_ok_def)
  note packet = handle_position [OF assms(1)]
  have z1: "in_zone z ?s1" and z2: "in_zone z ?s2" and z3: "in_zone z s3"
    and silent: "lastPacketTS s3 = time_UnixMilli (snd c3)"
    by (simp_all add: s3)
  have three: "run (loop_read sim_unmarshal) Map.empty
      (map (\<lambda>d. ReadPacket d clk) (offline_send tid z 0 (map (\<lambda>c. SimTick (fst c) (snd c) None) [c1, c2, c3])))
    = ([walk_event tid z c1], [tid \<mapsto> s3])"
    by (simp add: emit_pkt_def packet pos tag_state_def walk_first walk_next [OF z1] walk_next [OF z2] walk_event_def s3)
  from sweep_offline [of "[tid \<mapsto> s3]" tid s3 sweeps sim_unmarshal] z3 assms(3) silent obtain now where now: "now \<in> set sweeps"
    "run (loop_read sim_unmarshal) [tid \<mapsto> s3] (map (\<lambda>now. ReadDeadline [tid] now) sweeps)
      = ([watchdogEvent tid s3 now], [tid \<mapsto> s3\<lparr>online := False\<rparr>])"
    by (auto simp: in_zone_def)
  have last: "fst (loop_read sim_unmarshal [tid \<mapsto> s3\<lparr>online := False\<rparr>]
      (ReadPacket (positionPkt tid [z] (fst c4) (snd c4)) clk))
    = [presenceEvent (?m c4) (?t c4) [z] PresenceTypeActive 0]"
    by (simp add: packet pos tag_state_def case_prod_beta offline_resume [OF z3])
  have "fst (feed sim_unmarshal (offline_reads tid z [c1, c2, c3] sweeps c4 clk))
      = [walk_event tid z c1, watchdogEvent tid s3 now, presenceEvent (?m c4) (?t c4) [z] PresenceTypeActive 0]"
    unfolding feed_def offline_reads_def run_append three
    by (simp add: case_prod_beta run_append now(2) last del: loop_read.simps)
  with now(1) z3 show ?thesis by blast
qed

lemma watchdog_event_ok:
  assumes "ascii tid" and "ascii z" and "in_zone z st" and "time_json_ok now"
  shows "event_wire_ok (watchdogEvent tid st now)"
proof -
  have "valid_map (actorMetadataFromState st)"
    using assms(3) by (simp add: actorMetadataFromState_def put_nonempty_def in_zone_def valid_ascii)
  with assms show ?thesis
    by (auto simp: event_wire_ok_def wire_ok_defs toWireEvent_def toWireState_def event_defs in_zone_def
        valid_eventID valid_ascii sim_location_def float_finite_def)
qed

section \<open>Properties\<close>

text \<open>
  C14: the simulator's \<open>walk\<close> scenario passes its own validation: for any number of tags, any zones
  of which no two neighbours are equal and any clock readings the wire can carry, the zone
  messages that the datagrams of each tag leave in the stream satisfy the checks of the tag.
\<close>

theorem walk_scenario_passes:
  assumes "reliable N log kv (tagID ` {..<tags})" and "starts_empty log kv r"
    and "distinct_adj zs" and "list_all ascii zs"
    and "\<And>i. i < tags \<Longrightarrow> clocks_ok (cs i) \<and> length (cs i) = length zs"
  shows "validateWalk tags zs
      (\<lambda>i. map (to_check_in new_ts) (on_subject (zoneSubject (tagID i))
        (stream_after N log sim_unmarshal r (concat (map (\<lambda>i. walk_reads (tagID i) zs (cs i) clk) [0..<tags])))))
    = Some True"
proof -
  let ?reads = "concat (map (\<lambda>i. walk_reads (tagID i) zs (cs i) clk) [0..<tags])"
  let ?evs = "concat (map (\<lambda>i. walk_events (tagID i) zs (cs i)) [0..<tags])"
  have evs: "fst (feed sim_unmarshal ?reads) = ?evs"
    unfolding feed_def by (rule walk_all_run) (use assms(3,5) in auto)
  note one = walk_events_ok [OF ascii_tagID assms(4)]
  have "events_ok (tagID ` {..<tags}) ?evs"
    using one assms(5) by (fastforce simp: events_ok_def list_all_iff)
  with evs have ok: "events_ok (tagID ` {..<tags}) (fst (feed sim_unmarshal ?reads))" by simp
  have arrive: "map (to_check_in new_ts) (on_subject (zoneSubject (tagID i)) (stream_after N log sim_unmarshal r ?reads))
      = map (\<lambda>e. Ev (domainEventToPb new_ts e)) (walk_events (tagID i) zs (cs i))" if "i < tags" for i
    using walk_share [OF assms(4), of "[0..<tags]" cs i] assms(5) that
    by (intro walk_arrive [OF assms(1-4) _ _ ok]) (simp_all add: evs)
  have "validate_tags is zs (\<lambda>i. map (to_check_in new_ts) (on_subject (zoneSubject (tagID i))
      (stream_after N log sim_unmarshal r ?reads))) [] = Some True" if "\<And>i. i \<in> set is \<Longrightarrow> i < tags" for "is"
    using that
  proof (induction "is")
    case (Cons i "is")
    have "runChecks (walk_checks (tagID i) zs)
        (map (\<lambda>e. Ev (domainEventToPb new_ts e)) (walk_events (tagID i) zs (cs i))) = (Some True, [])"
      using walk_checks_pass [OF ascii_tagID assms(4), of "cs i" i new_ts "[]"] assms(5) [of i] Cons.prems [of i] by simp
    with Cons arrive [of i] show ?case by simp
  qed simp
  from this [of "[0..<tags]"] show ?thesis by (simp add: validateWalk_def)
qed

theorem walk_scenario_passes_witness:
  "validateWalk 2 [''zone-a'', ''zone-b'']
      (\<lambda>i. map (to_check_in unix_ns) (on_subject (zoneSubject (tagID i))
        (stream_after mem_nats fst sim_unmarshal fresh
          (concat (map (\<lambda>i. walk_reads (tagID i) [''zone-a'', ''zone-b''] [(1000, 1000), (2000, 2000)] time_zero) [0..<2])))))
    = Some True"
  by (rule walk_scenario_passes [OF mem_nats_reliable starts_empty_fresh]) (simp_all add: clocks_ok_def)

text \<open>
  C15: the \<open>offline\<close> scenario passes its own validation whenever a sweep runs 12 seconds or more
  after the last packet of the burst, as it does when no other datagram arrives: the change
  messages in the stream satisfy the checks, the tag is reported inactive once and active again.
\<close>

theorem offline_scenario_passes:
  assumes "reliable N log kv {tagID 0}" and "starts_empty log kv r" and "clocks_ok [c1, c2, c3, c4]"
    and "list_all time_json_ok sweeps"
    and "\<exists>now \<in> set sweeps. OfflineThreshold \<le> time_Sub now (time_UnixMilli (snd c3))"
  shows "validateOffline
      (map (to_check_in new_ts) (map snd (filter (\<lambda>m. fst m \<noteq> rawSubject (tagID 0))
        (stream_after N log sim_unmarshal r (offline_reads (tagID 0) ''zone-a'' [c1, c2, c3] sweeps c4 clk)))))
    = Some True"
proof -
  let ?reads = "offline_reads (tagID 0) ''zone-a'' [c1, c2, c3] sweeps c4 clk"
  let ?e3 = "presenceEvent (received (positionPkt (tagID 0) [''zone-a''] (fst c4) (snd c4)))
    (time_UnixMilli (fst c4)) [''zone-a''] PresenceTypeActive 0"
  from offline_events [OF tagID_not_Nil assms(3,5), where z = "''zone-a''" and clk = clk] obtain now st where
    now: "now \<in> set sweeps" and st: "in_zone ''zone-a'' st" and
    evs: "fst (feed sim_unmarshal ?reads) = [walk_event (tagID 0) ''zone-a'' c1, watchdogEvent (tagID 0) st now, ?e3]"
    by blast
  note t = clocks_ok_time [OF assms(3)]
  have zone: "ascii ''zone-a''" by simp
  have "event_wire_ok ?e3"
    by (rule sim_event_ok(2) [OF ascii_tagID [of 0], where z = "''zone-a''"]) (use t in auto)
  with walk_event_ok [OF ascii_tagID zone t, of c1] watchdog_event_ok [OF ascii_tagID zone st] now assms(4) have ok:
    "event_wire_ok (walk_event (tagID 0) ''zone-a'' c1)" "event_wire_ok (watchdogEvent (tagID 0) st now)"
    "event_wire_ok ?e3"
    by (auto simp: list_all_iff)
  have "events_ok {tagID 0} (fst (feed sim_unmarshal ?reads))"
    unfolding evs using ok by (simp add: events_ok_def walk_event_def)
  from stream_after_empty [OF assms(1,2) this] have
    "filter (\<lambda>m. fst m \<noteq> rawSubject (tagID 0)) (stream_after N log sim_unmarshal r ?reads)
      = messages [(zoneSubject (tagID 0), walk_event (tagID 0) ''zone-a'' c1),
          (presenceSubject (tagID 0), watchdogEvent (tagID 0) st now), (presenceSubject (tagID 0), ?e3)]"
    unfolding evs
    by (simp add: case_prod_beta changes_def change_subject_def same_presence_def walk_event_def)
  then show ?thesis
    using ok by (simp add: validateOffline_def offline_checks_def walk_event_def)
qed

theorem offline_scenario_passes_witness:
  "validateOffline
      (map (to_check_in unix_ns) (map snd (filter (\<lambda>m. fst m \<noteq> rawSubject (tagID 0))
        (stream_after mem_nats fst sim_unmarshal fresh
          (offline_reads (tagID 0) ''zone-a'' [(1000, 1000), (2000, 2000), (3000, 3000)]
             [GoTime 8000000000, GoTime 18000000000] (18000, 18000) time_zero)))))
    = Some True"
proof -
  have "OfflineThreshold \<le> time_Sub (GoTime 18000000000) (time_UnixMilli 3000)"
    by (simp add: OfflineThreshold_def time_defs)
  then show ?thesis
    by (intro offline_scenario_passes [OF mem_nats_reliable starts_empty_fresh])
      (simp_all add: clocks_ok_def time_defs)
qed

text \<open>
  The exit status of the simulator: 2 for a wrong call or a missing connection, otherwise 1
  exactly when a validation was asked for and has failed.
\<close>

lemma sim_exit_status:
  "sim_main fl dial_err sub_err passed ended = Some code \<Longrightarrow>
     code = 2 \<and> (sint (fl_tags fl) < 1 \<or> dial_err \<noteq> None \<or> sub_err \<noteq> None
        \<or> fl_scenario fl \<notin> {''walk'', ''offline'', ''lost'', ''stress''})
     \<or> code = 1 \<and> fl_validate fl \<and> passed (fl_scenario fl) = Some False
     \<or> code = 0 \<and> (fl_validate fl \<and> fl_scenario fl \<noteq> ''stress'' \<longrightarrow> passed (fl_scenario fl) = Some True)"
  by (auto simp: sim_main_def split: if_splits option.splits bool.splits)

end
