(* ===== verification/Helpers.thy ===== *)
theory Helpers
  imports GoNum
begin

text \<open>
  \<open>internal/helpers/os.go\<close>: environment variables with a type and a default, and
  \<open>strconv.Atoi\<close>, which reads the numeric ones. The environment is the function
  \<open>os.LookupEnv\<close>. \<open>Atoi\<close> returns a value and an error at the same time: 0 for a text that
  is no number, the nearest 64-bit integer for a number out of range.
\<close>

section \<open>strconv.ParseInt and strconv.Atoi\<close>

text \<open>
  A leading sign is cut off, the rest is read by \<open>ParseUint\<close>, whose value for a number out
  of range is the largest word; then the bounds of a signed 64-bit integer are applied.
\<close>

definition int_cutoff :: uint64 where
  "int_cutoff = push_bit 63 1"

definition cut_sign :: "string \<Rightarrow> bool \<times> string" where
  "cut_sign s =
     (case s of
        [] \<Rightarrow> (False, [])
      | c # cs \<Rightarrow> if c = CHR ''+'' then (False, cs) else if c = CHR ''-'' then (True, cs) else (False, s))"

definition ParseInt :: "string \<Rightarrow> int64 \<times> num_error option" where
  "ParseInt s =
     (if s = [] then (0, Some ErrSyntax)
      else let (neg, digits) = cut_sign s; parsed = ParseUint digits
        in if parsed = Inl ErrSyntax then (0, Some ErrSyntax)
           else let un = (case parsed of Inl _ \<Rightarrow> - 1 | Inr w \<Rightarrow> w)
             in if \<not> neg \<and> int_cutoff \<le> un then (int_cutoff - 1, Some ErrRange)
                else if neg \<and> int_cutoff < un then (- int_cutoff, Some ErrRange)
                else (if neg then - un else un, None))"

fun num_error_text :: "num_error \<Rightarrow> string" where
  "num_error_text ErrSyntax = ''invalid syntax''"
| "num_error_text ErrRange = ''value out of range''"

text \<open>\<open>Atoi\<close>: the same result for every text, the error a \<open>*NumError\<close> around its cause.\<close>

definition Atoi :: "string \<Rightarrow> int64 \<times> go_error option" where
  "Atoi s = (case ParseInt s of (i, err) \<Rightarrow>
     (i, map_option (\<lambda>e. Wrapped ''strconv.Atoi: parsing'' (ErrorString (num_error_text e))) err))"

section \<open>Typed lookup\<close>

text \<open>
  A value of the type parameter \<open>V\<close>. The constraint \<open>Value\<close> admits the first two; the last
  stands for a type outside it (with its \<open>%T\<close> name), for which \<open>GetEnv\<close> has a branch.
\<close>

datatype env_value = StringValue string | IntValue int64 | OtherValue string

fun Value :: "env_value \<Rightarrow> bool" where
  "Value (StringValue s) = True"
| "Value (IntValue i) = True"
| "Value (OtherValue t) = False"

text \<open>\<open>var value V\<close>: the zero value of the type of a value.\<close>

fun zero_value :: "env_value \<Rightarrow> env_value" where
  "zero_value (StringValue s) = StringValue ''''"
| "zero_value (IntValue i) = IntValue 0"
| "zero_value (OtherValue t) = OtherValue t"

type_synonym environment = "string \<Rightarrow> string option"

text \<open>The type switch of \<open>GetEnv\<close> looks at the zero value.\<close>

definition GetEnv :: "environment \<Rightarrow> env_value \<Rightarrow> string \<Rightarrow> env_value \<times> go_error option" where
  "GetEnv env v key =
     (let found = env key
      in case zero_value v of
           StringValue _ \<Rightarrow>
             (case found of
                None \<Rightarrow> (StringValue '''', Some (ErrNotFound key))
              | Some val \<Rightarrow> (StringValue val, None))
         | IntValue _ \<Rightarrow>
             (case found of
                None \<Rightarrow> (IntValue 0, Some (ErrNotFound key))
              | Some val \<Rightarrow> (case Atoi val of (iVal, err) \<Rightarrow> (IntValue iVal, err)))
         | OtherValue typ \<Rightarrow> (OtherValue typ, Some (ErrInvalidType typ)))"

definition GetEnvOr :: "environment \<Rightarrow> string \<Rightarrow> env_value \<Rightarrow> env_value \<times> go_error option" where
  "GetEnvOr env key def =
     (case GetEnv env def key of
        (val, err) \<Rightarrow>
          if (case err of None \<Rightarrow> False | Some e \<Rightarrow> err_is e (ErrNotFound key)) then (def, None)
          else (val, err))"

text \<open>The texts of the two errors.\<close>

definition ErrNotFound_Error :: "string \<Rightarrow> string" where
  "ErrNotFound_Error key = ''utils: env var '' @ key @ '' not found''"

definition ErrInvalidType_Error :: "string \<Rightarrow> string" where
  "ErrInvalidType_Error typ = ''utils: invalid type '' @ typ"

section \<open>What Atoi computes\<close>

text \<open>A decimal literal: an optional sign and at least one digit; and the integer it denotes.\<close>

definition int_literal :: "string \<Rightarrow> bool" where
  "int_literal s \<longleftrightarrow> snd (cut_sign s) \<noteq> [] \<and> list_all is_digit (snd (cut_sign s))"

definition int_value :: "string \<Rightarrow> int" where
  "int_value s = (case cut_sign s of (neg, digits) \<Rightarrow>
     if neg then - int (dec_val 0 digits) else int (dec_val 0 digits))"

definition in_int64 :: "int \<Rightarrow> bool" where
  "in_int64 i \<longleftrightarrow> - (2 ^ 63) \<le> i \<and> i < 2 ^ 63"

text \<open>The nearest 64-bit integer.\<close>

definition clamp64 :: "int \<Rightarrow> int" where
  "clamp64 i = max (- (2 ^ 63)) (min (2 ^ 63 - 1) i)"

lemma clamp64_in [simp]: "in_int64 i \<Longrightarrow> clamp64 i = i"
  by (simp add: clamp64_def in_int64_def)

lemma cut_sign_Nil [simp]: "cut_sign [] = (False, [])"
  by (simp add: cut_sign_def)

text \<open>
  \<open>ParseUint\<close> stops at the first round that overflows, so a text with a syntax error behind
  an overflow is reported as out of range: what is refused as no number at all is a text
  whose longest readable prefix does not overflow.
\<close>

lemma parse_loop_digits: "list_all is_digit s \<Longrightarrow> parse_loop n s \<noteq> Inl ErrSyntax"
  by (induction s arbitrary: n)
    (auto simp: char_digit_eq_Some char_digit_eq_None Let_def split: option.split)

lemma parse_loop_rejects:
  "\<not> list_all is_digit s \<Longrightarrow>
     parse_loop n s = Inl (if 2 ^ 64 \<le> dec_val (unat n) (takeWhile is_digit s) then ErrRange else ErrSyntax)"
proof (induction s arbitrary: n)
  case (Cons c cs)
  show ?case
  proof (cases "char_digit c")
    case None
    then have "\<not> is_digit c" by (simp add: char_digit_eq_None)
    with None show ?thesis using unsigned_less [of n] by (simp add: not_le)
  next
    case (Some d)
    then have d: "d < 10" "is_digit c" "d = of_char c - 48" by (auto simp: char_digit_eq_Some is_digit_def)
    with Cons.prems have cs: "\<not> list_all is_digit cs" by simp
    have val: "dec_val (unat n) (takeWhile is_digit (c # cs)) = dec_val (unat n * 10 + d) (takeWhile is_digit cs)"
      using d by simp
    show ?thesis
    proof (cases "unat n * 10 + d < 2 ^ 64")
      case True
      with parse_round [OF d(1), of n] have
        "\<not> (parse_cutoff \<le> n \<or> n * 10 + of_nat d < n * 10)" "unat (n * 10 + of_nat d) = unat n * 10 + d"
        by auto
      with Some val Cons.IH [OF cs, of "n * 10 + of_nat d"] show ?thesis by (simp add: Let_def)
    next
      case False
      with parse_round [OF d(1), of n] have "parse_cutoff \<le> n \<or> n * 10 + of_nat d < n * 10" by auto
      moreover have "2 ^ 64 \<le> dec_val (unat n * 10 + d) (takeWhile is_digit cs)"
        using False dec_val_mono [of "unat n * 10 + d" "takeWhile is_digit cs"] by simp
      ultimately show ?thesis using Some val by (auto simp: Let_def)
    qed
  qed
qed simp

text \<open>\<open>ParseUint\<close> as the case split \<open>ParseInt\<close> makes of it.\<close>

lemma ParseUint_cases:
  assumes "s \<noteq> []"
  shows "list_all is_digit s \<Longrightarrow>
      ParseUint s = (if dec_val 0 s < 2 ^ 64 then Inr (of_nat (dec_val 0 s)) else Inl ErrRange)"
    and "\<not> list_all is_digit s \<Longrightarrow>
      ParseUint s = Inl (if 2 ^ 64 \<le> dec_val 0 (takeWhile is_digit s) then ErrRange else ErrSyntax)"
proof -
  show "ParseUint s = Inl (if 2 ^ 64 \<le> dec_val 0 (takeWhile is_digit s) then ErrRange else ErrSyntax)"
    if "\<not> list_all is_digit s"
    using parse_loop_rejects [OF that, of 0] assms by (simp add: ParseUint_def)
  assume d: "list_all is_digit s"
  show "ParseUint s = (if dec_val 0 s < 2 ^ 64 then Inr (of_nat (dec_val 0 s)) else Inl ErrRange)"
  proof (cases "dec_val 0 s < 2 ^ 64")
    case True
    then have "unat (of_nat (dec_val 0 s) :: 64 word) = dec_val 0 s"
      by (simp add: unat_of_nat)
    with True d assms show ?thesis by (simp add: ParseUint_iff list_all_iff)
  next
    case False
    obtain e where e: "ParseUint s = Inl e"
      using False ParseUint_iff [of s] by (cases "ParseUint s") auto
    moreover have "e \<noteq> ErrSyntax"
      using parse_loop_digits [OF d, of 0] e assms by (simp add: ParseUint_def)
    ultimately show ?thesis using False by (cases e) auto
  qed
qed

text \<open>The two comparisons with the cutoff are those of the unbounded number.\<close>

lemma unat_int_cutoff: "unat int_cutoff = 2 ^ 63"
  by (simp add: int_cutoff_def)

lemma cutoff_cmp:
  assumes "n < 2 ^ 64"
  shows "int_cutoff \<le> of_nat n \<longleftrightarrow> 2 ^ 63 \<le> n" and "int_cutoff < of_nat n \<longleftrightarrow> 2 ^ 63 < n"
  using assms by (simp_all add: word_le_nat_alt word_less_nat_alt unat_int_cutoff unat_of_nat)

lemma sint_of_nat_small:
  "n < 2 ^ 63 \<Longrightarrow> sint (of_nat n :: int64) = int n"
  "n \<le> 2 ^ 63 \<Longrightarrow> sint (- of_nat n :: int64) = - int n"
  using sint_word_of_int_small [of "int n"] sint_word_of_int_small [of "- int n"] by simp_all

lemma cutoff_bounds:
  "sint (int_cutoff - 1) = 2 ^ 63 - 1" "sint (- int_cutoff) = - (2 ^ 63)" "int_cutoff \<le> - 1" "int_cutoff < - 1"
  by (simp_all add: int_cutoff_def)

lemma ParseInt_literal:
  assumes "int_literal s"
  shows "sint (fst (ParseInt s)) = clamp64 (int_value s)
    \<and> snd (ParseInt s) = (if in_int64 (int_value s) then None else Some ErrRange)"
proof -
  obtain neg digits where cut: "cut_sign s = (neg, digits)" by force
  with assms have s: "s \<noteq> []" and d: "digits \<noteq> []" "list_all is_digit digits"
    by (auto simp: int_literal_def)
  let ?n = "dec_val 0 digits"
  show ?thesis
  proof (cases "?n < 2 ^ 64")
    case False
    with s cut ParseUint_cases(1) [OF d] show ?thesis
      by (cases neg) (simp_all add: ParseInt_def int_value_def cutoff_bounds in_int64_def clamp64_def)
  next
    case True
    note P = ParseUint_cases(1) [OF d] and cmp = cutoff_cmp [OF True]
    show ?thesis
    proof (cases neg)
      case True
      with s cut P cmp \<open>?n < 2 ^ 64\<close> sint_of_nat_small(2) [of ?n] show ?thesis
        by (auto simp: ParseInt_def int_value_def cutoff_bounds in_int64_def clamp64_def)
    next
      case False
      with s cut P cmp \<open>?n < 2 ^ 64\<close> sint_of_nat_small(1) [of ?n] show ?thesis
        by (auto simp: ParseInt_def int_value_def cutoff_bounds in_int64_def clamp64_def)
    qed
  qed
qed

text \<open>What is read of a text before its first character that is no digit, after the sign.\<close>

definition digit_prefix :: "string \<Rightarrow> nat" where
  "digit_prefix s = dec_val 0 (takeWhile is_digit (snd (cut_sign s)))"

lemma ParseUint_no_digits:
  assumes "\<not> list_all is_digit s \<or> s = []"
  shows "ParseUint s = Inl (if 2 ^ 64 \<le> dec_val 0 (takeWhile is_digit s) then ErrRange else ErrSyntax)"
  using assms ParseUint_cases(2) [of s] by (cases "s = []") (simp_all add: ParseUint_def)

lemma ParseInt_no_literal:
  assumes "\<not> int_literal s"
  shows "ParseInt s =
    (if 2 ^ 64 \<le> digit_prefix s then (if fst (cut_sign s) then - int_cutoff else int_cutoff - 1, Some ErrRange)
     else (0, Some ErrSyntax))"
proof (cases "s = []")
  case False
  obtain neg digits where cut: "cut_sign s = (neg, digits)" by force
  from assms cut have n: "\<not> list_all is_digit digits \<or> digits = []"
    by (auto simp: int_literal_def)
  from ParseUint_no_digits [OF n] False cut show ?thesis
    by (cases neg) (simp_all add: ParseInt_def digit_prefix_def cutoff_bounds Let_def)
qed (simp add: ParseInt_def digit_prefix_def)

lemma Atoi_literal:
  "int_literal s \<Longrightarrow> sint (fst (Atoi s)) = clamp64 (int_value s) \<and> (snd (Atoi s) = None \<longleftrightarrow> in_int64 (int_value s))"
  using ParseInt_literal [of s] by (auto simp: Atoi_def split: prod.splits if_splits)

lemma Atoi_no_literal:
  "\<not> int_literal s \<Longrightarrow> snd (Atoi s) \<noteq> None
     \<and> sint (fst (Atoi s)) = (if 2 ^ 64 \<le> digit_prefix s then (if fst (cut_sign s) then - (2 ^ 63) else 2 ^ 63 - 1) else 0)"
  using ParseInt_no_literal [of s] by (simp add: Atoi_def cutoff_bounds)

lemma Atoi_not_found: "snd (Atoi s) = Some e \<Longrightarrow> \<not> err_is e (ErrNotFound key)"
  by (auto simp: Atoi_def split: prod.splits)

section \<open>What a lookup with a default gives\<close>

lemma GetEnvOr_missing: "env key = None \<Longrightarrow> Value def \<Longrightarrow> GetEnvOr env key def = (def, None)"
  by (cases def) (simp_all add: GetEnvOr_def GetEnv_def)

lemma GetEnvOr_string: "env key = Some val \<Longrightarrow> GetEnvOr env key (StringValue d) = (StringValue val, None)"
  by (simp add: GetEnvOr_def GetEnv_def)

lemma GetEnvOr_int:
  "env key = Some val \<Longrightarrow> GetEnvOr env key (IntValue d) = (IntValue (fst (Atoi val)), snd (Atoi val))"
  using Atoi_not_found [of val _ key]
  by (auto simp: GetEnvOr_def GetEnv_def split: prod.splits option.splits)

text \<open>The constraint on the type parameter rules the last branch of \<open>GetEnv\<close> out.\<close>

lemma GetEnv_type:
  "Value v \<Longrightarrow> Value (fst (GetEnv env v key)) \<and> (\<forall>t. snd (GetEnv env v key) \<noteq> Some (ErrInvalidType t))"
  by (cases v) (auto simp: GetEnv_def Atoi_def split: option.splits prod.splits)

end
