(* ===== verification/Server.thy ===== *)
theory Server
  imports Grpc Helpers
begin

text \<open>
  \<open>internal/adapters/grpc/server\<close>: \<open>health.go\<close> and \<open>server.go\<close>. The gRPC library is not
  part of the repository: what \<open>NewServer\<close> hands to it is recorded in \<open>grpc_server\<close>, and
  what \<open>Listen\<close> and \<open>Serve\<close> do is an argument of \<open>Server_Start\<close>.
\<close>

section \<open>health.go\<close>

type_synonym int32 = "32 word"
type_synonym HealthCheckStatus = int32

definition HealthCheckStatus_UNKNOWN :: HealthCheckStatus where "HealthCheckStatus_UNKNOWN = 0"
definition HealthCheckStatus_SERVING :: HealthCheckStatus where "HealthCheckStatus_SERVING = 1"
definition HealthCheckStatus_NOT_SERVING :: HealthCheckStatus where "HealthCheckStatus_NOT_SERVING = 2"
definition HealthCheckStatus_SERVICE_UNKNOWN :: HealthCheckStatus where "HealthCheckStatus_SERVICE_UNKNOWN = 3"

record HealhCheck =
  Status :: HealthCheckStatus

definition NewHealhCheck :: HealhCheck where
  "NewHealhCheck = \<lparr>Status = HealthCheckStatus_SERVING\<rparr>"

text \<open>The response carries the status; \<open>Check\<close> never fails, whatever the request.\<close>

definition Check :: "HealhCheck \<Rightarrow> 'req \<Rightarrow> HealthCheckStatus result" where
  "Check hc req = Inr (Status hc)"

section \<open>server.go\<close>

type_synonym ('m, 'x) stream_handler = "'m recv list \<Rightarrow> 'x \<Rightarrow> outcome \<times> 'x"

datatype grpc_service = CoreService | HealthService | ReflectionService

record ('m, 'x) grpc_server =
  connectionTimeout :: duration
  keepaliveMinTime :: duration
  permitWithoutStream :: bool
  streamInterceptors :: "(('m, 'x) stream_handler \<Rightarrow> ('m, 'x) stream_handler) list"
  services :: "grpc_service list"

record ('m, 'x) server =
  gs :: "('m, 'x) grpc_server"
  hc :: HealhCheck

text \<open>\<open>NewCoreAdapter\<close> of \<open>internal/adapters/grpc/adapter.go\<close> wraps the service and never fails.\<close>

definition NewCoreAdapter :: "'svc \<Rightarrow> 'svc result" where
  "NewCoreAdapter service = Inr service"

text \<open>\<open>NewServer\<close>; the arguments are those of the interceptors. It never fails.\<close>

definition NewServer ::
  "(go_error \<Rightarrow> string) \<Rightarrow> go_error option \<Rightarrow> ('m \<Rightarrow> go_error option) \<Rightarrow> ('m, 'x) server result" where
  "NewServer show_err new_err validate =
     Inr \<lparr>gs = \<lparr>connectionTimeout = 10 * second, keepaliveMinTime = 10 * second, permitWithoutStream = False,
            streamInterceptors = [ValidateStream show_err new_err validate, MonitorStream],
            services = [CoreService, HealthService, ReflectionService]\<rparr>,
          hc = NewHealhCheck\<rparr>"

text \<open>A stream of the server: the library runs the first interceptor of the chain outermost.\<close>

definition handle_stream :: "('m, 'x) server \<Rightarrow> ('m, 'x) stream_handler \<Rightarrow> ('m, 'x) stream_handler" where
  "handle_stream srv handler = foldr (\<lambda>i h. i h) (streamInterceptors (gs srv)) handler"

text \<open>\<open>fmt.Sprintf(":%d", port)\<close>.\<close>

definition listen_address :: "int64 \<Rightarrow> string" where
  "listen_address port = CHR '':'' # dec_int (sint port)"

text \<open>
  \<open>Start\<close>: \<open>listen\<close> is \<open>net.Listen\<close>, \<open>served\<close> what \<open>Serve\<close> on the listener comes to (\<open>Blocked\<close>
  while it serves).
\<close>

definition Server_Start :: "(string \<Rightarrow> string \<Rightarrow> go_error option) \<Rightarrow> outcome \<Rightarrow> int64 \<Rightarrow> outcome" where
  "Server_Start listen served port =
     (case listen ''tcp'' (listen_address port) of
        Some err \<Rightarrow> Returned (Some err)
      | None \<Rightarrow> served)"

text \<open>\<open>Stop\<close> up to the call of \<open>GracefulStop\<close>.\<close>

definition Server_Stop :: "('m, 'x) server \<Rightarrow> ('m, 'x) server" where
  "Server_Stop srv = srv\<lparr>hc := (hc srv)\<lparr>Status := HealthCheckStatus_NOT_SERVING\<rparr>\<rparr>"

section \<open>Facts\<close>

lemma NewServer_chain:
  "NewServer show_err new_err validate = Inr srv \<Longrightarrow>
     handle_stream srv = serve_stream show_err new_err validate"
  by (auto simp: NewServer_def handle_stream_def serve_stream_def fun_eq_iff)

lemma NewServer_serving:
  "NewServer show_err new_err validate = Inr srv \<Longrightarrow> Check (hc srv) req = Inr HealthCheckStatus_SERVING"
  by (auto simp: NewServer_def Check_def NewHealhCheck_def)

lemma Server_Stop_status: "Check (hc (Server_Stop srv)) req = Inr HealthCheckStatus_NOT_SERVING"
  by (simp add: Server_Stop_def Check_def)

lemma handle_stream_Stop [simp]: "handle_stream (Server_Stop srv) = handle_stream srv"
  by (simp add: Server_Stop_def handle_stream_def fun_eq_iff)

end
