(* ===== verification/AdapterSetup.thy ===== *)
theory AdapterSetup
  imports AdapterRun
begin

text \<open>
  The rest of \<open>internal/adapters/quuppa/adapter.go\<close>: the constructors, what \<open>Run\<close> does
  before its loop (bind, receive buffer, defaults of clock and tick), and how a run ends once
  its context is cancelled. The calls of package \<open>net\<close> are functions on a world of any type.
\<close>

section \<open>The adapter and its socket\<close>

definition udpRecvBufSize :: int where "udpRecvBufSize = 4 * 1024 * 1024"

text \<open>A clock of any type \<open>'c\<close>; a production adapter has none of its own.\<close>

record 'c adapter =
  addr :: string
  a_clk :: "'c option"
  tickInterval :: duration

definition New :: "string \<Rightarrow> 'c adapter" where
  "New a = \<lparr>addr = a, a_clk = None, tickInterval = 0\<rparr>"

definition newWithClock :: "string \<Rightarrow> 'c \<Rightarrow> duration \<Rightarrow> 'c adapter" where
  "newWithClock a c tick = (New a)\<lparr>a_clk := Some c, tickInterval := tick\<rparr>"

record 'w udp =
  net_ListenPacket :: "string \<Rightarrow> string \<Rightarrow> 'w \<Rightarrow> go_error option \<times> 'w"
  udp_SetReadBuffer :: "int \<Rightarrow> 'w \<Rightarrow> go_error option \<times> 'w"

definition run_clock :: "'c \<Rightarrow> 'c adapter \<Rightarrow> 'c" where
  "run_clock realClock a = (case a_clk a of None \<Rightarrow> realClock | Some c \<Rightarrow> c)"

definition run_tick :: "'c adapter \<Rightarrow> duration" where
  "run_tick a = (if tickInterval a \<le> 0 then WatchdogTick else tickInterval a)"

text \<open>
  \<open>Run\<close> up to its loop: an error when the address cannot be bound, else the clock and the tick
  the loop works with and its start state. A receive buffer the system refuses is not an error.
\<close>

definition Run_setup ::
  "'w udp \<Rightarrow> 'c \<Rightarrow> 'c adapter \<Rightarrow> 'w \<Rightarrow> ('c \<times> duration \<times> run_state) result \<times> 'w" where
  "Run_setup U realClock a w =
     (case net_ListenPacket U ''udp'' (addr a) w of
        (Some err, w') \<Rightarrow> (Inl (Wrapped (''quuppa: bind '' @ addr a) err), w')
      | (None, w') \<Rightarrow>
          (case udp_SetReadBuffer U udpRecvBufSize w' of
             (_, w'') \<Rightarrow> (Inr (run_clock realClock a, run_tick a, run_start), w'')))"

text \<open>The deadline set before each read: the wall clock at that moment plus the tick.\<close>

definition read_deadline :: "gotime \<Rightarrow> duration \<Rightarrow> gotime" where
  "read_deadline wall tick = GoTime (unix_ns wall + tick)"

section \<open>A cancelled run\<close>

text \<open>
  When the context is cancelled the socket is closed: from then on every read fails, and the
  loop finds the context's error \<open>err\<close>.
\<close>

definition cancelled_label :: "go_error \<Rightarrow> 'b label \<Rightarrow> bool" where
  "cancelled_label err l =
     (case l of Read r ctx_err \<Rightarrow> read_is_error r \<and> ctx_err = Some err | Loop \<Rightarrow> True | Emit \<Rightarrow> True)"

text \<open>What the loop and the goroutine still have to do: each pending event is sent, received, emitted.\<close>

definition run_work :: "run_state \<Rightarrow> nat" where
  "run_work s = (if result s = None then 1 + 3 * length (pending s) else 0) + emit_work s"

text \<open>The two errors a cancelled run can return.\<close>

definition cancel_result :: "go_error \<Rightarrow> go_error \<Rightarrow> bool" where
  "cancel_result err res \<longleftrightarrow> res = err \<or> (\<exists>e. res = Wrapped ''quuppa: emit: '' e)"

definition cancel_inv :: "('b \<Rightarrow> string + udpMsg) \<Rightarrow> go_error \<Rightarrow> run_state \<Rightarrow> bool" where
  "cancel_inv decoder err s \<longleftrightarrow>
     (\<exists>reads. run_inv decoder reads s) \<and> (\<forall>res. result s = Some res \<longrightarrow> cancel_result err res)"

lemma emit_work_simps [simp]:
  "emit_work (return_with err s) = emit_work s" "emit_work (s\<lparr>errCh := e\<rparr>) = emit_work s"
  "emit_work (s\<lparr>pending := es\<rparr>) = emit_work s"
  by (simp_all add: emit_work_def return_with_def)

lemma emit_work_send: "emit_work (send_event ev s) \<le> emit_work s + 2"
  by (simp add: emit_work_def send_event_def)

lemma send_event_simps [simp]:
  "result (send_event ev s) = result s" "pending (send_event ev s) = pending s"
  by (simp_all add: send_event_def)

lemma run_work_step:
  assumes "run_step decoder s l t" and "cancelled_label err l"
  shows "run_work t < run_work s \<and> (result t = result s \<or> (\<exists>res. result t = Some res \<and> cancel_result err res))"
  using assms(1)
proof (cases rule: run_step.cases)
  case (emit_error e)
  then show ?thesis
    by (simp add: run_work_def at_head_def cancel_result_def return_with_def emit_work_def)
next
  case (read_cancelled r ctx_err e)
  with assms(2) show ?thesis
    by (simp add: run_work_def at_head_def cancel_result_def return_with_def emit_work_def cancelled_label_def)
next
  case (read_handled r ctx_err)
  with assms(2) show ?thesis by (simp add: cancelled_label_def)
next
  case (send ev evs)
  with emit_work_send [of ev "s\<lparr>pending := evs\<rparr>"] show ?thesis by (simp add: run_work_def)
qed (simp_all add: run_work_def emit_work_def)

lemma cancelled_progress:
  assumes "run_inv decoder reads s" and "\<not> returned s"
  shows "\<exists>l t. cancelled_label err l \<and> run_step decoder s l t"
proof (cases "result s")
  case None
  from loop_progress [OF this, of "ReadError err" "Some err" decoder] obtain l t where
    l: "l = Loop \<or> l = Read (ReadError err) (Some err)" and step: "run_step decoder s l t" by blast
  from l have "cancelled_label err l" by (auto simp: cancelled_label_def)
  with step show ?thesis by blast
next
  case (Some res)
  with emit_progress [OF assms(1)] assms(2) obtain t where "run_step decoder s Emit t" by auto
  moreover have "cancelled_label err Emit" by (simp add: cancelled_label_def)
  ultimately show ?thesis by blast
qed

interpretation cancelled_run:
  terminating "run_step decoder" "cancel_inv decoder err" "cancelled_label err" run_work returned
  for decoder :: "'b \<Rightarrow> string + udpMsg" and err :: go_error
proof unfold_locales
  fix s t :: run_state and l :: "'b label"
  assume inv: "cancel_inv decoder err s" and l: "cancelled_label err l" and step: "run_step decoder s l t"
  from inv obtain reads where r: "run_inv decoder reads s" by (auto simp: cancel_inv_def)
  show "cancel_inv decoder err t \<and> run_work t < run_work s"
    using run_work_step [OF step l] run_inv_step [OF r step] inv by (auto simp: cancel_inv_def)
next
  fix s :: run_state
  assume "cancel_inv decoder err s" and "\<not> returned s"
  then show "\<exists>l t. cancelled_label err l \<and> run_step decoder s l t"
    using cancelled_progress by (auto simp: cancel_inv_def)
qed

lemma reach_cancel_inv:
  "run_reach decoder reads s \<Longrightarrow> result s = None \<Longrightarrow> cancel_inv decoder err s"
  by (auto simp: cancel_inv_def dest: run_reach_inv)

section \<open>Properties\<close>

text \<open>
  C22: the contract of a provider on cancellation. Once the context is cancelled while the
  loop runs, every continuation of the run is finite, of at most \<open>run_work\<close> steps, however the
  loop and the emit goroutine interleave and whatever \<open>emit\<close> answers; when it cannot be
  continued, \<open>Run\<close> has returned, with the context's error or with the wrapped error of the
  emit callback, and no event it had derived is left in transit unless a callback failed.
\<close>

theorem run_cancelled_returns:
  assumes "run_reach decoder reads s" and "result s = None"
    and "steps (run_step decoder) s ls t" and "list_all (cancelled_label err) ls"
  shows "length ls \<le> run_work s
    \<and> ((\<forall>l u. cancelled_label err l \<longrightarrow> \<not> run_step decoder t l u) \<longrightarrow>
         returned t \<and> (\<exists>res. result t = Some res \<and> cancel_result err res)
         \<and> (failed t = [] \<longrightarrow> in_transit t = []))"
proof (intro conjI impI)
  note inv = reach_cancel_inv [OF assms(1,2), of err]
  note bounded = cancelled_run.steps_bounded [OF assms(3) inv assms(4)]
  from bounded show "length ls \<le> run_work s" by simp
  assume "\<forall>l u. cancelled_label err l \<longrightarrow> \<not> run_step decoder t l u"
  then show ret: "returned t"
    by (intro cancelled_run.stuck_is_final [OF assms(3) inv assms(4)]) simp
  then show "\<exists>res. result t = Some res \<and> cancel_result err res"
    using bounded by (auto simp: cancel_inv_def returned_def)
  show "failed t = [] \<Longrightarrow> in_transit t = []"
    using bounded ret by (auto simp: cancel_inv_def returned_def run_inv_def in_transit_def)
qed

text \<open>The run that is cancelled while it sends the events of its only packet.\<close>

theorem run_cancelled_returns_witness:
  "\<exists>ls t. steps (run_step sim_unmarshal) after_one_read ls t \<and> returned t \<and> length ls \<le> run_work after_one_read"
proof -
  have res: "result after_one_read = None" by (simp add: after_one_read_def run_start_def)
  from cancelled_run.reaches_final [OF reach_cancel_inv [OF reach_one_read res]]
  obtain ls t where "list_all (cancelled_label ContextCanceled) ls"
    "steps (run_step sim_unmarshal) after_one_read ls t" "returned t" by blast
  with run_cancelled_returns [OF reach_one_read res] show ?thesis by blast
qed

end
