(* ===== verification/Main_Program.thy ===== *)
theory Main_Program
  imports Server AdapterSetup
begin

text \<open>
  \<open>cmd/main.go\<close>: the configuration from the environment, the construction of the components
  with its error exits, and the three goroutines of the errgroup from their start to the exit
  status, as a step relation. What the libraries do (NATS connection, \<open>net.Listen\<close>, gRPC's
  \<open>Serve\<close> and \<open>GracefulStop\<close>, \<open>errgroup\<close>) is a record of parameters; what they document is
  \<open>documented\<close>.
\<close>

section \<open>Configuration\<close>

record config =
  cfg_name :: string
  cfg_port :: int64
  cfg_quuppaAddr :: string
  cfg_natsURL :: string

fun string_of :: "env_value \<Rightarrow> string" where
  "string_of (StringValue s) = s"
| "string_of _ = ''''"

fun int_of :: "env_value \<Rightarrow> int64" where
  "int_of (IntValue i) = i"
| "int_of _ = 0"

text \<open>Every error of \<open>GetEnvOr\<close> is dropped.\<close>

definition main_config :: "environment \<Rightarrow> config" where
  "main_config env =
     \<lparr>cfg_name = string_of (fst (GetEnvOr env ''SERVICE_NAME'' (StringValue ''unknown''))),
      cfg_port = int_of (fst (GetEnvOr env ''PORT'' (IntValue 8080))),
      cfg_quuppaAddr = string_of (fst (GetEnvOr env ''QUUPPA_LISTEN_ADDR'' (StringValue '':9090''))),
      cfg_natsURL = string_of (fst (GetEnvOr env ''NATS_URL'' (StringValue ''nats://localhost:4222'')))\<rparr>"

section \<open>Composition\<close>

record 'w nats_conn =
  nats_Connect :: "string \<Rightarrow> int \<Rightarrow> 'w \<Rightarrow> go_error option \<times> 'w"
  nc_Close :: "'w \<Rightarrow> 'w"

record ('w, 'c, 'm, 'x) program =
  p_adapter :: "'c adapter"
  p_repository :: "'w repository"
  p_service :: "('w repository, unit) service"
  p_server :: "('m, 'x) server"

datatype 'p startup = Exit int | Composed 'p

text \<open>
  From the connection to the gRPC server: each error ends the program with status 1, after
  closing the connection where there is one. \<open>C\<close> is package \<open>nats\<close>, \<open>N\<close> the JetStream of the
  connection; the other arguments are those of the interceptors.
\<close>

definition main_init ::
  "'w nats_conn \<Rightarrow> 'w nats \<Rightarrow> (go_error \<Rightarrow> string) \<Rightarrow> go_error option \<Rightarrow> ('m \<Rightarrow> go_error option) \<Rightarrow> environment
    \<Rightarrow> 'w \<Rightarrow> ('w, 'c, 'm, 'x) program startup \<times> 'w" where
  "main_init C N show_err new_err validate env w =
     (let cfg = main_config env in
      case nats_Connect C (cfg_natsURL cfg) (- 1) w of
        (Some err, w1) \<Rightarrow> (Exit 1, w1)
      | (None, w1) \<Rightarrow>
          (case NewRepository N 0 w1 of
             (Inl err, w2) \<Rightarrow> (Exit 1, nc_Close C w2)
           | (Inr rep, w2) \<Rightarrow>
               (let adapter = New (cfg_quuppaAddr cfg) in
                case NewService [quuppa_Send] (Some (Repository.Write N)) of
                  Inl err \<Rightarrow> (Exit 1, nc_Close C w2)
                | Inr svc \<Rightarrow>
                    (case NewCoreAdapter svc of
                       Inl err \<Rightarrow> (Exit 1, nc_Close C w2)
                     | Inr core \<Rightarrow>
                         (case NewServer show_err new_err validate of
                            Inl err \<Rightarrow> (Exit 1, nc_Close C w2)
                          | Inr srv \<Rightarrow>
                              (Composed \<lparr>p_adapter = adapter, p_repository = rep, p_service = svc,
                                 p_server = srv\<rparr>, w2))))))"

section \<open>The goroutines\<close>

text \<open>What the goroutine around \<open>service.Start\<close> returns.\<close>

definition service_goroutine :: "go_error option \<Rightarrow> go_error option" where
  "service_goroutine err =
     (case err of None \<Rightarrow> None | Some e \<Rightarrow> if err_is e ContextCanceled then None else Some e)"

text \<open>
  The libraries: \<open>group_wait\<close> is \<open>Group.Wait\<close> on the results of the goroutines in the order they
  returned, \<open>group_cancels\<close> whether the group's context is cancelled by them,
  \<open>serve_after_stop\<close> what \<open>Serve\<close> comes to on a stopped server, \<open>serve_ends b r\<close> whether \<open>Serve\<close>
  can return \<open>r\<close> (\<open>b\<close>: a stop has begun), \<open>graceful_ends n\<close> whether \<open>GracefulStop\<close> can return
  while \<open>n\<close> RPCs are open.
\<close>

record libraries =
  group_wait :: "go_error option list \<Rightarrow> go_error option"
  group_cancels :: "go_error option list \<Rightarrow> bool"
  net_listen :: "string \<Rightarrow> string \<Rightarrow> go_error option"
  serve_after_stop :: outcome
  serve_ends :: "bool \<Rightarrow> go_error option \<Rightarrow> bool"
  graceful_ends :: "nat \<Rightarrow> bool"

datatype grpc_phase = NotStarted | Serving | Ended

datatype teardown_phase = Waiting | Stopping | TornDown

text \<open>
  \<open>drain_called\<close> records that \<open>nc.Drain\<close> was called; the code drops its error and does not wait for
  the draining itself.
\<close>

record ('m, 'x) main_state =
  signalled :: bool
  provider_runs :: bool
  grpc :: grpc_phase
  teardown :: teardown_phase
  m_server :: "('m, 'x) server"
  open_rpcs :: nat
  drain_called :: bool
  ended :: "go_error option list"

definition main_start :: "('m, 'x) server \<Rightarrow> ('m, 'x) main_state" where
  "main_start srv = \<lparr>signalled = False, provider_runs = True, grpc = NotStarted, teardown = Waiting,
     m_server = srv, open_rpcs = 0, drain_called = False, ended = []\<rparr>"

text \<open>\<open>gctx.Done()\<close>: a signal arrived or the group cancelled its context.\<close>

definition gctx_done :: "libraries \<Rightarrow> ('m, 'x) main_state \<Rightarrow> bool" where
  "gctx_done L s = (signalled s \<or> group_cancels L (ended s))"

definition gctx_err :: "libraries \<Rightarrow> ('m, 'x) main_state \<Rightarrow> go_error option" where
  "gctx_err L s = (if gctx_done L s then Some ContextCanceled else None)"

definition stopping :: "('m, 'x) main_state \<Rightarrow> bool" where
  "stopping s = (teardown s \<noteq> Waiting)"

text \<open>What the call of \<open>Serve\<close> comes to at this moment.\<close>

definition served :: "libraries \<Rightarrow> ('m, 'x) main_state \<Rightarrow> outcome" where
  "served L s = (if stopping s then serve_after_stop L else Blocked)"

datatype main_label =
    Signal
  | ProviderEnds "go_error option list"
  | ServerListens
  | ServerEnds "go_error option"
  | RpcOpen
  | RpcEnd
  | StopBegins
  | StopEnds

inductive main_step ::
  "libraries \<Rightarrow> ('s, 'w) service \<Rightarrow> int64 \<Rightarrow> ('m, 'x) main_state \<Rightarrow> main_label \<Rightarrow> ('m, 'x) main_state \<Rightarrow> bool"
  for L :: libraries and svc :: "('s, 'w) service" and port :: int64 where
  signal: "\<not> signalled s \<Longrightarrow> main_step L svc port s Signal (s\<lparr>signalled := True\<rparr>)"
| provider_ends: "provider_runs s \<Longrightarrow> length errs = length (providers svc) \<Longrightarrow>
     main_step L svc port s (ProviderEnds errs)
       (s\<lparr>provider_runs := False,
          ended := ended s @ [service_goroutine (Start (group_wait L) svc (gctx_err L s) errs)]\<rparr>)"
| server_listens: "grpc s = NotStarted \<Longrightarrow> Server_Start (net_listen L) (served L s) port = Blocked \<Longrightarrow>
     main_step L svc port s ServerListens (s\<lparr>grpc := Serving\<rparr>)"
| server_refused: "grpc s = NotStarted \<Longrightarrow> Server_Start (net_listen L) (served L s) port = Returned r \<Longrightarrow>
     main_step L svc port s (ServerEnds r) (s\<lparr>grpc := Ended, ended := ended s @ [r]\<rparr>)"
| rpc_open: "grpc s = Serving \<Longrightarrow> \<not> stopping s \<Longrightarrow>
     main_step L svc port s RpcOpen (s\<lparr>open_rpcs := open_rpcs s + 1\<rparr>)"
| rpc_end: "0 < open_rpcs s \<Longrightarrow>
     main_step L svc port s RpcEnd (s\<lparr>open_rpcs := open_rpcs s - 1\<rparr>)"
| server_ends: "grpc s = Serving \<Longrightarrow> serve_ends L (stopping s) r \<Longrightarrow>
     main_step L svc port s (ServerEnds r) (s\<lparr>grpc := Ended, ended := ended s @ [r]\<rparr>)"
| stop_begins: "teardown s = Waiting \<Longrightarrow> gctx_done L s \<Longrightarrow>
     main_step L svc port s StopBegins (s\<lparr>teardown := Stopping, m_server := Server_Stop (m_server s)\<rparr>)"
| stop_ends: "teardown s = Stopping \<Longrightarrow> graceful_ends L (open_rpcs s) \<Longrightarrow>
     main_step L svc port s StopEnds (s\<lparr>teardown := TornDown, drain_called := True, ended := ended s @ [None]\<rparr>)"

text \<open>\<open>g.Wait\<close> returns when the three goroutines have; the status then is that of its error.\<close>

definition main_done :: "('m, 'x) main_state \<Rightarrow> bool" where
  "main_done s \<longleftrightarrow> \<not> provider_runs s \<and> grpc s = Ended \<and> teardown s = TornDown"

definition exit_status :: "libraries \<Rightarrow> ('m, 'x) main_state \<Rightarrow> int" where
  "exit_status L s =
     (case group_wait L (ended s) of
        None \<Rightarrow> 0
      | Some err \<Rightarrow> if err_is err ContextCanceled then 0 else 1)"

section \<open>What the libraries document\<close>

text \<open>
  \<open>errgroup\<close>: \<open>Wait\<close> returns the first error and an error cancels the context. gRPC: \<open>Serve\<close>
  returns \<open>ErrServerStopped\<close> on a stopped server, nil once a stop has begun, and an error of
  its own otherwise; \<open>GracefulStop\<close> blocks until every open RPC has finished. None of these
  errors is a cancelled context.
\<close>

definition own_error :: "go_error \<Rightarrow> bool" where
  "own_error e \<longleftrightarrow> \<not> err_is e ContextCanceled"

definition documented :: "libraries \<Rightarrow> bool" where
  "documented L \<longleftrightarrow>
     errgroup_wait (group_wait L) \<and> (\<forall>es. group_cancels L es = (\<exists>e. Some e \<in> set es))
     \<and> (\<forall>net a. pred_option own_error (net_listen L net a))
     \<and> (\<exists>e. serve_after_stop L = Returned (Some e) \<and> own_error e)
     \<and> (\<forall>r. serve_ends L True r = (r = None))
     \<and> (\<forall>r. serve_ends L False r \<longrightarrow> r \<noteq> None \<and> pred_option own_error r)
     \<and> (\<forall>n. graceful_ends L n = (n = 0))"

section \<open>Faults\<close>

text \<open>A goroutine ended with an error that is no cancellation.\<close>

fun fault :: "main_label \<Rightarrow> bool" where
  "fault (ProviderEnds errs) = (\<exists>e. Some e \<in> set errs \<and> own_error e)"
| "fault (ServerEnds r) = (r \<noteq> None)"
| "fault _ = False"

lemma filter_faults:
  "(case filter (\<lambda>e. e \<noteq> None \<and> \<not> err_is (the e) ContextCanceled) errs of [] \<Rightarrow> None | e # _ \<Rightarrow> e) = None
     \<longleftrightarrow> \<not> fault (ProviderEnds errs)"
  "(case filter (\<lambda>e. e \<noteq> None \<and> \<not> err_is (the e) ContextCanceled) errs of [] \<Rightarrow> None | e # _ \<Rightarrow> e) = Some e
     \<Longrightarrow> own_error e"
  by (induction errs) (auto simp: own_error_def split: if_splits)

lemma service_goroutine_Start:
  assumes "documented L" and "providers svc \<noteq> []"
  shows "service_goroutine (Start (group_wait L) svc ctx errs) \<noteq> None \<longleftrightarrow> fault (ProviderEnds errs)"
    and "pred_option own_error (service_goroutine (Start (group_wait L) svc ctx errs))"
proof -
  have wait: "errgroup_wait (group_wait L)" using assms(1) by (simp add: documented_def)
  obtain x where x: "Start (group_wait L) svc ctx errs = x" "x = None \<longleftrightarrow> \<not> fault (ProviderEnds errs)"
    "\<And>e. x = Some e \<Longrightarrow> own_error e"
    using Start_first_fault [OF wait assms(2), of ctx errs] filter_faults by blast
  show "service_goroutine (Start (group_wait L) svc ctx errs) \<noteq> None \<longleftrightarrow> fault (ProviderEnds errs)"
    and "pred_option own_error (service_goroutine (Start (group_wait L) svc ctx errs))"
    unfolding x(1) using x(2,3) by (cases x; simp add: service_goroutine_def own_error_def)+
qed

lemma Server_Start_cases:
  assumes "documented L" and "Server_Start (net_listen L) (served L s) port = Returned r"
  shows "r \<noteq> None \<and> pred_option own_error r"
proof (cases "net_listen L ''tcp'' (listen_address port)")
  case None
  with assms show ?thesis by (auto simp: Server_Start_def served_def documented_def split: if_splits)
next
  case (Some err)
  then have "own_error err" using assms(1) unfolding documented_def by (metis option.pred_inject(2))
  moreover from Some assms(2) have "r = Some err" by (simp add: Server_Start_def)
  ultimately show ?thesis by simp
qed

lemma first_error_None: "first_error es = None \<longleftrightarrow> \<not> (\<exists>e. Some e \<in> set es)"
  by (induction es) (auto simp: first_error_def split: if_splits)

lemma first_error_Some: "first_error es = Some e \<Longrightarrow> Some e \<in> set es"
  by (induction es) (auto simp: first_error_def split: if_splits)

section \<open>The invariant\<close>

definition main_inv :: "libraries \<Rightarrow> main_label list \<Rightarrow> ('m, 'x) main_state \<Rightarrow> bool" where
  "main_inv L tr s \<longleftrightarrow>
     list_all (pred_option own_error) (ended s)
     \<and> ((\<exists>e. Some e \<in> set (ended s)) \<longleftrightarrow> (\<exists>l \<in> set tr. fault l))
     \<and> (signalled s \<longleftrightarrow> Signal \<in> set tr)
     \<and> (stopping s \<longrightarrow> signalled s \<or> (\<exists>e. Some e \<in> set (ended s)))
     \<and> (drain_called s \<longleftrightarrow> teardown s = TornDown)
     \<and> (drain_called s \<longrightarrow> open_rpcs s = 0)
     \<and> Status (hc (m_server s)) = (if stopping s then HealthCheckStatus_NOT_SERVING else HealthCheckStatus_SERVING)"

lemma main_inv_ended:
  assumes "main_inv L tr s" and "pred_option own_error r" and "fault l \<longleftrightarrow> r \<noteq> None"
    and "l \<noteq> Signal" and "ended t = ended s @ [r]"
    and "signalled t = signalled s" and "stopping t \<longrightarrow> stopping s" and "drain_called t = drain_called s"
    and "teardown t = teardown s" and "open_rpcs t = open_rpcs s" and "m_server t = m_server s"
  shows "main_inv L (tr @ [l]) t"
  using assms by (cases r) (auto simp: main_inv_def stopping_def)

lemma main_inv_step:
  assumes "documented L" and "providers svc \<noteq> []"
    and inv: "main_inv L tr s" and step: "main_step L svc port s l t"
  shows "main_inv L (tr @ [l]) t"
  using step
proof (cases rule: main_step.cases)
  case (provider_ends errs)
  show ?thesis
    by (rule main_inv_ended [OF inv, of "service_goroutine (Start (group_wait L) svc (gctx_err L s) errs)"])
      (use provider_ends service_goroutine_Start [OF assms(1,2)] in \<open>auto simp: stopping_def simp del: fault.simps\<close>)
next
  case (server_refused r)
  from Server_Start_cases [OF assms(1) server_refused(4)] show ?thesis
    by (intro main_inv_ended [OF inv, of r]) (use server_refused in \<open>auto simp: stopping_def\<close>)
next
  case (server_ends r)
  then have "pred_option own_error r"
    using assms(1) by (cases "stopping s") (auto simp: documented_def)
  then show ?thesis
    by (intro main_inv_ended [OF inv, of r]) (use server_ends in \<open>auto simp: stopping_def\<close>)
next
  case stop_begins
  then have "signalled s \<or> (\<exists>e. Some e \<in> set (ended s))"
    using assms(1) by (simp add: gctx_done_def documented_def)
  with inv stop_begins show ?thesis
    by (auto simp: main_inv_def stopping_def Server_Stop_def)
next
  case stop_ends
  then have "open_rpcs s = 0" using assms(1) by (simp add: documented_def)
  with inv stop_ends show ?thesis by (auto simp: main_inv_def stopping_def)
qed (use inv in \<open>auto simp: main_inv_def stopping_def\<close>)

lemma main_inv_start: "NewServer show_err new_err validate = Inr srv \<Longrightarrow> main_inv L [] (main_start srv)"
  by (auto simp: main_inv_def main_start_def stopping_def NewServer_def NewHealhCheck_def)

lemma main_inv_steps:
  assumes "documented L" and "providers svc \<noteq> []" and "NewServer show_err new_err validate = Inr srv"
    and "steps (main_step L svc port) (main_start srv) tr s"
  shows "main_inv L tr s"
  by (rule steps_invariant [OF assms(4), where P = "main_inv L"])
    (use main_inv_start [OF assms(3)] main_inv_step [OF assms(1,2)] in auto)

section \<open>Shutdown\<close>

text \<open>What is left to do once the teardown goroutine has begun to stop the server.\<close>

definition main_work :: "('m, 'x) main_state \<Rightarrow> nat" where
  "main_work s = (if signalled s then 0 else 1) + (if provider_runs s then 1 else 0)
     + (case grpc s of NotStarted \<Rightarrow> 2 | Serving \<Rightarrow> 1 | Ended \<Rightarrow> 0)
     + (case teardown s of Waiting \<Rightarrow> 2 | Stopping \<Rightarrow> 1 | TornDown \<Rightarrow> 0) + open_rpcs s"

lemma stopping_step:
  assumes "stopping s" and "main_step L svc port s l t"
  shows "stopping t \<and> main_work t < main_work s"
  using assms(2,1)
  by (cases rule: main_step.cases)
    (auto simp: main_work_def stopping_def split: grpc_phase.splits teardown_phase.splits)

text \<open>The steps that the program's own goroutines cannot take by themselves.\<close>

fun from_outside :: "main_label \<Rightarrow> bool" where
  "from_outside Signal = True"
| "from_outside (ProviderEnds errs) = True"
| "from_outside RpcOpen = True"
| "from_outside RpcEnd = True"
| "from_outside _ = False"

text \<open>All providers have returned and no client holds an RPC open.\<close>

definition alone :: "('m, 'x) main_state \<Rightarrow> bool" where
  "alone s \<longleftrightarrow> \<not> provider_runs s \<and> open_rpcs s = 0"

lemma alone_step:
  assumes "stopping s" and "alone s" and "main_step L svc port s l t" and "\<not> from_outside l"
  shows "alone t"
  using assms(3,1,2,4) by (cases rule: main_step.cases) (auto simp: alone_def)

lemma alone_progress:
  assumes "documented L" and "stopping s" and "alone s" and "\<not> main_done s"
  shows "\<exists>l t. \<not> from_outside l \<and> main_step L svc port s l t"
proof -
  consider "grpc s = NotStarted" | "grpc s = Serving" | "teardown s = Stopping" "open_rpcs s = 0"
    using assms(2-4) by (cases "grpc s"; cases "teardown s") (auto simp: main_done_def stopping_def alone_def)
  then show ?thesis
  proof cases
    case 1
    show ?thesis
    proof (cases "Server_Start (net_listen L) (served L s) port")
      case Blocked
      with main_step.server_listens [OF 1 this] show ?thesis by (metis from_outside.simps(5))
    next
      case (Returned r)
      with main_step.server_refused [OF 1 this] show ?thesis by (metis from_outside.simps(6))
    qed
  next
    case 2
    with assms(1,2) have "serve_ends L (stopping s) None" by (simp add: documented_def)
    with main_step.server_ends [OF 2 this] show ?thesis by (metis from_outside.simps(6))
  next
    case 3
    with assms(1) have "graceful_ends L (open_rpcs s)" by (simp add: documented_def)
    with main_step.stop_ends [OF 3(1) this] show ?thesis by (metis from_outside.simps(8))
  qed
qed

text \<open>Every continuation is finite; left alone, the program reaches its end by its own steps.\<close>

lemma stopping_bounded:
  assumes "steps (main_step L svc port) s ls t" and "stopping s"
  shows "stopping t \<and> length ls + main_work t \<le> main_work s"
  using assms
proof (induction rule: steps.induct)
  case (more s l t ls u)
  with stopping_step [of s L svc port l t] have "stopping t" "main_work t < main_work s" by simp_all
  with more show ?case by simp
qed simp

interpretation main_shutdown:
  terminating "main_step L svc port" "\<lambda>s. documented L \<and> stopping s \<and> alone s" "\<lambda>l. \<not> from_outside l" main_work main_done
  for L :: libraries and svc :: "('s, 'w) service" and port :: int64
proof unfold_locales
  fix s t :: "('m, 'x) main_state" and l
  assume "documented L \<and> stopping s \<and> alone s" and "\<not> from_outside l" and "main_step L svc port s l t"
  with stopping_step [of s L svc port l t] alone_step [of s L svc port l t]
  show "(documented L \<and> stopping t \<and> alone t) \<and> main_work t < main_work s" by simp
next
  fix s :: "('m, 'x) main_state"
  assume "documented L \<and> stopping s \<and> alone s" and "\<not> main_done s"
  with alone_progress [of L s svc port] show "\<exists>l t. \<not> from_outside l \<and> main_step L svc port s l t" by simp
qed

text \<open>An open RPC keeps the teardown goroutine in \<open>GracefulStop\<close>.\<close>

lemma held_step:
  assumes "documented L" and "teardown s = Stopping" and "0 < open_rpcs s"
    and "main_step L svc port s l t" and "l \<noteq> RpcEnd"
  shows "teardown t = Stopping \<and> open_rpcs t = open_rpcs s \<and> drain_called t = drain_called s"
  using assms(4,1-3,5)
  by (cases rule: main_step.cases) (auto simp: stopping_def documented_def)

lemma held_steps:
  assumes "steps (main_step L svc port) s ls t" and "documented L" and "teardown s = Stopping"
    and "0 < open_rpcs s" and "RpcEnd \<notin> set ls"
  shows "teardown t = Stopping \<and> open_rpcs t = open_rpcs s \<and> drain_called t = drain_called s"
  using assms
proof (induction rule: steps.induct)
  case (more s l t ls u)
  with held_step [of L s svc port l t] show ?case by auto
qed simp

section \<open>Properties\<close>

text \<open>The libraries as they are documented, and a run of the program, for the concrete instances.\<close>

definition reference_libraries :: libraries where
  "reference_libraries = \<lparr>group_wait = first_error, group_cancels = list_ex (\<lambda>e. e \<noteq> None),
     net_listen = (\<lambda>net a. None),
     serve_after_stop = Returned (Some (ErrorString ''grpc: the server has been stopped'')),
     serve_ends = (\<lambda>stop r. if stop then r = None else r = Some (ErrorString ''accept'')),
     graceful_ends = (\<lambda>n. n = 0)\<rparr>"

lemma reference_documented: "documented reference_libraries"
  by (auto simp: documented_def reference_libraries_def errgroup_wait_def own_error_def list_ex_iff)

lemma reference_simps [simp]:
  "graceful_ends reference_libraries n = (n = 0)" "serve_ends reference_libraries True r = (r = None)"
  "net_listen reference_libraries net a = None"
  by (simp_all add: reference_libraries_def)

definition sample_server :: "(unit, unit) server" where
  "sample_server = (case NewServer (\<lambda>e. '''') None (\<lambda>m. None) of Inr srv \<Rightarrow> srv)"

lemma sample_server: "NewServer (\<lambda>e. '''') None (\<lambda>m. None) = Inr sample_server"
  by (simp add: sample_server_def NewServer_def)

text \<open>A subscriber is connected when the signal arrives.\<close>

definition subscribed_trace :: "main_label list" where
  "subscribed_trace = [ServerListens, RpcOpen, Signal, StopBegins]"

definition subscribed_state :: "(unit, unit) main_state" where
  "subscribed_state = (main_start sample_server)\<lparr>grpc := Serving, open_rpcs := 1, signalled := True,
     teardown := Stopping, m_server := Server_Stop sample_server\<rparr>"

lemma subscribed_run:
  "steps (main_step reference_libraries (jetstream_service mem_nats) 8080) (main_start sample_server)
     subscribed_trace subscribed_state"
proof -
  let ?step = "main_step reference_libraries (jetstream_service mem_nats) 8080"
  let ?s0 = "main_start sample_server"
  let ?s1 = "?s0\<lparr>grpc := Serving\<rparr>"
  let ?s2 = "?s1\<lparr>open_rpcs := 1\<rparr>"
  let ?s3 = "?s2\<lparr>signalled := True\<rparr>"
  have 1: "?step ?s0 ServerListens ?s1"
    by (rule main_step.server_listens)
      (simp_all add: main_start_def Server_Start_def served_def stopping_def)
  have 2: "?step ?s1 RpcOpen ?s2"
    using main_step.rpc_open [of ?s1] by (simp add: main_start_def stopping_def)
  have 3: "?step ?s2 Signal ?s3"
    using main_step.signal [of ?s2] by (simp add: main_start_def)
  have 4: "?step ?s3 StopBegins subscribed_state"
    using main_step.stop_begins [of ?s3 reference_libraries]
    by (simp add: main_start_def gctx_done_def subscribed_state_def)
  from 1 2 3 4 show ?thesis
    unfolding subscribed_trace_def by (blast intro: steps.intros)
qed

lemma subscribed_simps [simp]: "stopping subscribed_state" "open_rpcs subscribed_state = 1"
  "ended subscribed_state = []" "provider_runs subscribed_state"
  by (simp_all add: subscribed_state_def stopping_def main_start_def)

text \<open>
  C23: the exit status. When all three goroutines have returned, the program exits with 1 if a
  provider ended with an error of its own, the address could not be bound, \<open>Serve\<close> was called
  after the stop, or \<open>Serve\<close> failed; and with 0 otherwise, which takes a signal. In both cases
  \<open>nc.Drain\<close> has been called, no RPC is open and the health check reports NOT_SERVING.
\<close>

theorem main_exit_status:
  assumes "documented L" and "providers svc \<noteq> []" and "NewServer show_err new_err validate = Inr srv"
    and "steps (main_step L svc port) (main_start srv) tr s" and "main_done s"
  shows "exit_status L s = (if \<exists>l \<in> set tr. fault l then 1 else 0)
    \<and> (exit_status L s = 0 \<longrightarrow> Signal \<in> set tr)
    \<and> drain_called s \<and> open_rpcs s = 0 \<and> Check (hc (m_server s)) req = Inr HealthCheckStatus_NOT_SERVING"
proof -
  note inv = main_inv_steps [OF assms(1-4)]
  have wait: "group_wait L (ended s) = first_error (ended s)"
    using assms(1) by (simp add: documented_def errgroup_wait_def)
  have status: "exit_status L s = (if \<exists>l \<in> set tr. fault l then 1 else 0)"
  proof (cases "first_error (ended s)")
    case None
    then have "\<not> (\<exists>l \<in> set tr. fault l)"
      using inv first_error_None [of "ended s"] by (simp add: main_inv_def)
    with None show ?thesis by (simp add: exit_status_def wait)
  next
    case (Some e)
    from first_error_Some [OF this] inv have "\<exists>l \<in> set tr. fault l" and "own_error e"
      by (auto simp: main_inv_def list_all_iff)
    with Some show ?thesis by (simp add: exit_status_def wait own_error_def)
  qed
  have "exit_status L s = 0 \<longrightarrow> Signal \<in> set tr"
  proof
    assume "exit_status L s = 0"
    with status have "\<not> (\<exists>l \<in> set tr. fault l)" by (simp split: if_splits)
    with inv assms(5) show "Signal \<in> set tr" by (auto simp: main_inv_def main_done_def stopping_def)
  qed
  with status inv assms(5) show ?thesis
    by (simp add: main_inv_def main_done_def stopping_def Check_def)
qed

text \<open>
  C24: from the moment the teardown begins, every continuation of the program is finite, of at
  most \<open>main_work\<close> steps, whatever the order of the goroutines and clients. Only two things can
  hold it up: a provider that has not returned and a client that keeps an RPC open. Once
  neither is left, the program's own goroutines can always take it to its end, and until
  they have, one of them can go on.
\<close>

theorem main_terminates:
  assumes "documented L" and "stopping s" and "steps (main_step L svc port) s ls t"
  shows "length ls \<le> main_work s
    \<and> (main_done t \<or> provider_runs t \<or> 0 < open_rpcs t \<or> (\<exists>l u. main_step L svc port t l u \<and> \<not> from_outside l))
    \<and> (\<not> provider_runs t \<longrightarrow> open_rpcs t = 0 \<longrightarrow>
        (\<exists>ms u. steps (main_step L svc port) t ms u \<and> list_all (\<lambda>l. \<not> from_outside l) ms \<and> main_done u))"
proof -
  from stopping_bounded [OF assms(3,2)] have t: "stopping t" "length ls \<le> main_work s" by simp_all
  from alone_progress [OF assms(1) t(1), of svc port] have "main_done t \<or> provider_runs t \<or> 0 < open_rpcs t
      \<or> (\<exists>l u. main_step L svc port t l u \<and> \<not> from_outside l)"
    unfolding alone_def by (metis gr0I)
  moreover from main_shutdown.reaches_final [of L t svc port] assms(1) t(1)
  have "\<not> provider_runs t \<longrightarrow> open_rpcs t = 0 \<longrightarrow>
      (\<exists>ms u. steps (main_step L svc port) t ms u \<and> list_all (\<lambda>l. \<not> from_outside l) ms \<and> main_done u)"
    unfolding alone_def by blast
  ultimately show ?thesis using t(2) by blast
qed

text \<open>The subscriber of the run above leaves and the provider returns: the rest is the program's own.\<close>

theorem main_terminates_witness:
  "\<exists>t ms u. steps (main_step reference_libraries (jetstream_service mem_nats) 8080) subscribed_state
       [RpcEnd, ProviderEnds [Some ContextCanceled]] t
     \<and> steps (main_step reference_libraries (jetstream_service mem_nats) 8080) t ms u
     \<and> list_all (\<lambda>l. \<not> from_outside l) ms \<and> main_done u"
proof -
  let ?step = "main_step reference_libraries (jetstream_service mem_nats) 8080"
  let ?s1 = "subscribed_state\<lparr>open_rpcs := 0\<rparr>"
  let ?r = "service_goroutine (Start (group_wait reference_libraries) (jetstream_service mem_nats)
      (gctx_err reference_libraries ?s1) [Some ContextCanceled])"
  let ?s2 = "?s1\<lparr>provider_runs := False, ended := ended ?s1 @ [?r]\<rparr>"
  have 1: "?step subscribed_state RpcEnd ?s1"
    using main_step.rpc_end [of subscribed_state] by simp
  have 2: "?step ?s1 (ProviderEnds [Some ContextCanceled]) ?s2"
    by (rule main_step.provider_ends) simp_all
  from 1 2 have run: "steps ?step subscribed_state [RpcEnd, ProviderEnds [Some ContextCanceled]] ?s2"
    by (blast intro: steps.intros)
  from main_terminates [OF reference_documented _ run] obtain ms u where
    "steps ?step ?s2 ms u" "list_all (\<lambda>l. \<not> from_outside l) ms" "main_done u" by auto
  with run show ?thesis by blast
qed

text \<open>
  C25: a shutdown waits for the subscribers. Once the stop has begun with an RPC open, no step
  of the program itself closes it: unless a client ends an RPC, the program does not exit and
  never drains NATS.
\<close>

theorem subscriber_blocks_exit:
  assumes "documented L" and "providers svc \<noteq> []" and "NewServer show_err new_err validate = Inr srv"
    and "steps (main_step L svc port) (main_start srv) tr s" and "stopping s" and "0 < open_rpcs s"
    and "steps (main_step L svc port) s ls t" and "RpcEnd \<notin> set ls"
  shows "\<not> main_done t \<and> \<not> drain_called t \<and> open_rpcs t = open_rpcs s"
proof -
  have "teardown s = Stopping" and "\<not> drain_called s"
    using main_inv_steps [OF assms(1-4)] assms(5,6)
    by (cases "teardown s"; simp add: main_inv_def stopping_def)+
  with held_steps [OF assms(7,1)] assms(6,8) show ?thesis by (auto simp: main_done_def)
qed

theorem subscriber_blocks_exit_witness:
  "\<exists>t. steps (main_step reference_libraries (jetstream_service mem_nats) 8080) subscribed_state
      [ProviderEnds [Some ContextCanceled], ServerEnds None] t \<and> \<not> main_done t \<and> \<not> drain_called t"
proof -
  let ?step = "main_step reference_libraries (jetstream_service mem_nats) 8080"
  let ?r = "service_goroutine (Start (group_wait reference_libraries) (jetstream_service mem_nats)
      (gctx_err reference_libraries subscribed_state) [Some ContextCanceled])"
  let ?t = "subscribed_state\<lparr>provider_runs := False, ended := ended subscribed_state @ [?r]\<rparr>"
  let ?u = "?t\<lparr>grpc := Ended, ended := ended ?t @ [None]\<rparr>"
  have 1: "?step subscribed_state (ProviderEnds [Some ContextCanceled]) ?t"
    by (rule main_step.provider_ends) simp_all
  have "?step ?t (ServerEnds None) ?u"
    by (rule main_step.server_ends)
      (simp_all add: subscribed_state_def stopping_def)
  with 1 have run: "steps ?step subscribed_state [ProviderEnds [Some ContextCanceled], ServerEnds None] ?u"
    by (blast intro: steps.intros)
  with subscriber_blocks_exit [OF reference_documented _ sample_server subscribed_run _ _ run]
  show ?thesis by auto
qed

text \<open>The same run, its client gone: the program ends cleanly.\<close>

definition clean_trace :: "main_label list" where
  "clean_trace = [RpcEnd, StopEnds, ServerEnds None, ProviderEnds [Some ContextCanceled]]"

lemma clean_run:
  "\<exists>s. steps (main_step reference_libraries (jetstream_service mem_nats) 8080) subscribed_state clean_trace s
     \<and> main_done s"
proof -
  let ?step = "main_step reference_libraries (jetstream_service mem_nats) 8080"
  let ?s1 = "subscribed_state\<lparr>open_rpcs := 0\<rparr>"
  let ?s2 = "?s1\<lparr>teardown := TornDown, drain_called := True, ended := [None]\<rparr>"
  let ?s3 = "?s2\<lparr>grpc := Ended, ended := [None, None]\<rparr>"
  let ?r = "service_goroutine (Start (group_wait reference_libraries) (jetstream_service mem_nats)
      (gctx_err reference_libraries ?s3) [Some ContextCanceled])"
  let ?s4 = "?s3\<lparr>provider_runs := False, ended := [None, None, ?r]\<rparr>"
  have 1: "?step subscribed_state RpcEnd ?s1"
    using main_step.rpc_end [of subscribed_state] by simp
  have 2: "?step ?s1 StopEnds ?s2"
    using main_step.stop_ends [of ?s1 reference_libraries]
    by (simp add: subscribed_state_def main_start_def)
  have 3: "?step ?s2 (ServerEnds None) ?s3"
    using main_step.server_ends [of ?s2 reference_libraries None]
    by (simp add: subscribed_state_def stopping_def)
  have 4: "?step ?s3 (ProviderEnds [Some ContextCanceled]) ?s4"
    using main_step.provider_ends [of ?s3 "[Some ContextCanceled]" "jetstream_service mem_nats" reference_libraries]
    by simp
  have "main_done ?s4" by (simp add: main_done_def)
  with 1 2 3 4 show ?thesis
    unfolding clean_trace_def by (blast intro: steps.intros)
qed

theorem main_exit_status_witness:
  "\<exists>s. steps (main_step reference_libraries (jetstream_service mem_nats) 8080) (main_start sample_server)
      (subscribed_trace @ clean_trace) s \<and> main_done s \<and> drain_called s \<and> exit_status reference_libraries s = 0"
proof -
  obtain s where run: "steps (main_step reference_libraries (jetstream_service mem_nats) 8080) subscribed_state clean_trace s"
    and fin: "main_done s"
    using clean_run by blast
  from run subscribed_run have whole: "steps (main_step reference_libraries (jetstream_service mem_nats) 8080)
      (main_start sample_server) (subscribed_trace @ clean_trace) s"
    by (auto simp: steps_append)
  have "\<not> (\<exists>l \<in> set (subscribed_trace @ clean_trace). fault l)"
    by (simp add: subscribed_trace_def clean_trace_def own_error_def)
  with main_exit_status [OF reference_documented _ sample_server whole fin, of "()"] have
    "exit_status reference_libraries s = 0 \<and> drain_called s" by (simp del: set_append)
  with whole fin show ?thesis by blast
qed

text \<open>
  C40: the address the gRPC server binds, for every environment. Without \<open>PORT\<close> it is port 8080;
  a decimal number is taken as it is, clamped to 64 bits. Any other text makes the server
  listen on port 0, a port the system picks, because \<open>main\<close> drops the error, unless the digits
  before the first other character already exceed 64 bits: then it is the largest (after a
  minus sign the smallest) 64-bit integer.
\<close>

theorem listen_address_config:
  "listen_address (cfg_port (main_config env)) =
     (case env ''PORT'' of
        None \<Rightarrow> '':8080''
      | Some s \<Rightarrow>
          if int_literal s then CHR '':'' # dec_int (clamp64 (int_value s))
          else if 2 ^ 64 \<le> digit_prefix s
          then CHR '':'' # dec_int (if fst (cut_sign s) then - (2 ^ 63) else 2 ^ 63 - 1)
          else '':0'')"
proof (cases "env ''PORT''")
  case None
  moreover have "dec_int 8080 = ''8080''"
    by (simp add: dec_int_def dec_nat_rec dec_nat_lt10 digit_char_def char_of_def bit_0)
  then have "listen_address 8080 = '':8080''" by (simp add: listen_address_def)
  ultimately show ?thesis by (simp add: main_config_def GetEnvOr_missing)
next
  case (Some s)
  moreover have "dec_int 0 = ''0''" by code_simp
  ultimately show ?thesis
    using Atoi_literal [of s] Atoi_no_literal [of s]
    by (auto simp: main_config_def GetEnvOr_int listen_address_def)
qed

theorem listen_address_config_witness:
  "listen_address (cfg_port (main_config [''PORT'' \<mapsto> ''http''])) = '':0''"
proof -
  have "\<not> int_literal ''http''" "digit_prefix ''http'' = 0" by code_simp+
  with listen_address_config [of "[''PORT'' \<mapsto> ''http'']"] show ?thesis by simp
qed

text \<open>What \<open>main\<close> has built, or why it has exited, and which connection it has closed.\<close>

lemma main_init_outcome:
  "case (main_init C N show_err new_err validate env w :: ('w, 'c, 'm, 'x) program startup \<times> 'w) of
     (Exit code, w') \<Rightarrow> code = 1
       \<and> ((\<exists>err. nats_Connect C (cfg_natsURL (main_config env)) (- 1) w = (Some err, w'))
          \<or> (\<exists>w1 err w2. nats_Connect C (cfg_natsURL (main_config env)) (- 1) w = (None, w1)
               \<and> NewRepository N 0 w1 = (Inl err, w2) \<and> w' = nc_Close C w2))
   | (Composed p, w') \<Rightarrow>
       (\<exists>w1. nats_Connect C (cfg_natsURL (main_config env)) (- 1) w = (None, w1)
          \<and> NewRepository N 0 w1 = (Inr (p_repository p), w'))
       \<and> p_service p = jetstream_service N \<and> p_adapter p = New (cfg_quuppaAddr (main_config env))
       \<and> NewServer show_err new_err validate = Inr (p_server p)
       \<and> handle_stream (p_server p) = serve_stream show_err new_err validate"
proof -
  obtain cerr w1 where con: "nats_Connect C (cfg_natsURL (main_config env)) (- 1) w = (cerr, w1)" by force
  obtain res w2 where rep: "NewRepository N 0 w1 = (res, w2)" by force
  note built = main_init_def NewService_def NewCoreAdapter_def jetstream_service_def Let_def
  show ?thesis
  proof (cases cerr)
    case (Some err)
    with con show ?thesis by (simp add: main_init_def Let_def)
  next
    case None
    show ?thesis
    proof (cases res)
      case (Inl err)
      with con rep None show ?thesis by (simp add: main_init_def Let_def)
    next
      case (Inr r)
      obtain srv :: "('m, 'x) server" where "NewServer show_err new_err validate = Inr srv" by (simp add: NewServer_def)
      with con rep None Inr NewServer_chain show ?thesis by (simp add: built)
    qed
  qed
qed

end
