(* ===== verification/ConcurrentWrites.thy ===== *)
theory ConcurrentWrites
  imports StoreProps
begin

text \<open>
  Several calls of \<open>Repository.Write\<close> at the same time, as \<open>Service.Start\<close> makes them when it runs
  several providers. The lock of the repository protects single accesses to the cache map and
  nothing longer, so a call is cut into the accesses to shared state it makes: the messages
  it publishes, the lookup in the cache and in the bucket, the two writes of the new state.
  One call alone goes through these as \<open>Write\<close> does (\<open>write_alone\<close>).
\<close>

section \<open>A call, access by access\<close>

text \<open>
  Where a call is: \<open>RawDone\<close> has published the raw message, \<open>Missed\<close> has missed the cache, \<open>Fetched\<close> has
  read the bucket, \<open>Compared\<close> has found a change from \<open>prev\<close>, \<open>Published\<close> has published the
  change, \<open>Cached\<close> has put the new state into the cache.
\<close>

datatype phase =
    Begin
  | RawDone string
  | Missed string
  | Fetched string actorState
  | Compared string actorState
  | Published string actorState
  | Cached string actorState
  | Finished "string result"

definition state_unchanged :: "actorState \<Rightarrow> event \<Rightarrow> bool" where
  "state_unchanged prev e = (if ev_Type e = EventTypeZone then zone_unchanged prev e else presence_unchanged prev e)"

definition state_recorded :: "actorState \<Rightarrow> event \<Rightarrow> actorState" where
  "state_recorded prev e = (if ev_Type e = EventTypeZone then zone_recorded prev e else presence_recorded prev e)"

definition tracked_subject :: "event \<Rightarrow> string" where
  "tracked_subject e = (if ev_Type e = EventTypeZone then zoneSubject (ev_actor e) else presenceSubject (ev_actor e))"

definition change_error :: "event \<Rightarrow> string" where
  "change_error e =
     (if ev_Type e = EventTypeZone then ''jetstream: write zone change event '' @ ev_ID e
      else ''jetstream: write presence change event '' @ ev_ID e)"

definition compare :: "event \<Rightarrow> string \<Rightarrow> actorState \<Rightarrow> phase" where
  "compare e off prev = (if state_unchanged prev e then Finished (Inr off) else Compared off prev)"

fun advance :: "'w nats \<Rightarrow> event \<Rightarrow> phase \<Rightarrow> 'w repository \<Rightarrow> phase \<times> 'w repository" where
  "advance N e Begin r =
     (case publish N (rawSubject (ev_actor e)) e r of
        (Inl err, r1) \<Rightarrow> (Finished (Inl (Wrapped (''jetstream: write raw event '' @ ev_ID e) err)), r1)
      | (Inr off, r1) \<Rightarrow> (RawDone off, r1))"
| "advance N e (RawDone off) r =
     (if ev_Type e = EventTypeZone \<or> ev_Type e = EventTypePresence then
        (case cache r (ev_actor e) of
           Some s \<Rightarrow> (compare e off s, r)
         | None \<Rightarrow> (Missed off, r))
      else if ev_Type e = EventTypeCommand then
        (case publish N (commandSubject (ev_actor e)) e r of
           (Inl err, r1) \<Rightarrow> (Finished (Inl (Wrapped (''jetstream: write command event '' @ ev_ID e) err)), r1)
         | (Inr _, r1) \<Rightarrow> (Finished (Inr off), r1))
      else (Finished (Inr off), r))"
| "advance N e (Missed off) r =
     (case kv_Get N (ev_actor e) (world r) of
        Inl err \<Rightarrow> (compare e off zero_actorState, r)
      | Inr value \<Rightarrow>
          (case unmarshal_kvas value of
             Inl err \<Rightarrow> (compare e off zero_actorState, r)
           | Inr kvas \<Rightarrow> (Fetched off (actorState_of_kv kvas), r)))"
| "advance N e (Fetched off s) r = (compare e off s, setActorState (ev_actor e) s r)"
| "advance N e (Compared off prev) r =
     (case publish N (tracked_subject e) e r of
        (Inl err, r1) \<Rightarrow> (Finished (Inl (Wrapped (change_error e) err)), r1)
      | (Inr _, r1) \<Rightarrow> (Published off (state_recorded prev e), r1))"
| "advance N e (Published off st) r = (Cached off st, setActorState (ev_actor e) st r)"
| "advance N e (Cached off st) r = (Finished (Inr off), snd (persistActorState N (ev_actor e) st r))"
| "advance N e (Finished res) r = (Finished res, r)"

text \<open>\<open>k\<close> accesses of one call in a row.\<close>

fun advance_many :: "'w nats \<Rightarrow> event \<Rightarrow> nat \<Rightarrow> phase \<Rightarrow> 'w repository \<Rightarrow> phase \<times> 'w repository" where
  "advance_many N e 0 p r = (p, r)"
| "advance_many N e (Suc k) p r = (case advance N e p r of (p', r') \<Rightarrow> advance_many N e k p' r')"

text \<open>The calls for the events \<open>es\<close>; a step is one access of the call with the given number.\<close>

inductive conc_step ::
  "'w nats \<Rightarrow> event list \<Rightarrow> phase list \<times> 'w repository \<Rightarrow> nat \<Rightarrow> phase list \<times> 'w repository \<Rightarrow> bool"
  for N :: "'w nats" and es :: "event list" where
  access: "i < length es \<Longrightarrow> advance N (es ! i) (ps ! i) r = (p', r') \<Longrightarrow>
    conc_step N es (ps, r) i (ps[i := p'], r')"

inductive_simps conc_step_simps: "conc_step N es (ps, r) i t"

fun finished :: "phase \<Rightarrow> bool" where
  "finished (Finished res) = True"
| "finished _ = False"

section \<open>One call alone\<close>

lemma advance_many_Finished [simp]: "advance_many N e k (Finished res) r = (Finished res, r)"
  by (induction k) simp_all

lemma advance_many_add:
  "advance_many N e (j + k) p r = (case advance_many N e j p r of (p', r') \<Rightarrow> advance_many N e k p' r')"
  by (induction j arbitrary: p r) (simp_all split: prod.split)

lemma advance_many_snoc:
  "advance_many N e (Suc k) p r = (case advance_many N e k p r of (p', r') \<Rightarrow> advance N e p' r')"
  using advance_many_add [of N e k 1 p r] by (simp split: prod.splits)

lemmas handler_defs = handleZoneChange_def handlePresenceChange_def getActorState_def
  state_unchanged_def state_recorded_def tracked_subject_def change_error_def

text \<open>From a change found on, and from the lookup on, the accesses are those of the handler.\<close>

definition handle_tracked :: "'w nats \<Rightarrow> event \<Rightarrow> actorState \<Rightarrow> 'w repository \<Rightarrow> go_error option \<times> 'w repository" where
  "handle_tracked N e prev r =
     (if state_unchanged prev e then (None, r)
      else
        (case publish N (tracked_subject e) e r of
           (Inl err, r1) \<Rightarrow> (Some (Wrapped (change_error e) err), r1)
         | (Inr _, r1) \<Rightarrow> (None, snd (persistActorState N (ev_actor e) (state_recorded prev e)
              (setActorState (ev_actor e) (state_recorded prev e) r1)))))"

definition as_result :: "string \<Rightarrow> go_error option \<times> 'w repository \<Rightarrow> phase \<times> 'w repository" where
  "as_result off x = (case x of (None, r) \<Rightarrow> (Finished (Inr off), r) | (Some err, r) \<Rightarrow> (Finished (Inl err), r))"

lemma advance_compare:
  "advance_many N e 3 (compare e off prev) r = as_result off (handle_tracked N e prev r)"
  by (simp add: numeral_3_eq_3 compare_def handle_tracked_def as_result_def split: prod.split sum.split)

lemma handlers_tracked:
  "is_zone e \<or> is_presence e \<Longrightarrow>
     write_change N e r = (let (prev, _, r1) = getActorState N (ev_actor e) r in handle_tracked N e prev r1)"
  by (auto simp: write_change_def handler_defs handle_tracked_def Let_def split: prod.split sum.split)

lemma advance_many_result [simp]: "(case as_result off x of (p, r) \<Rightarrow> advance_many N e k p r) = as_result off x"
  by (simp add: as_result_def split: prod.split option.split)

lemma advance_compare_more:
  "advance_many N e (3 + k) (compare e off prev) r = as_result off (handle_tracked N e prev r)"
  unfolding advance_many_add advance_compare by (rule advance_many_result)

lemma advance_many_unfold:
  "advance_many N e 4 p r = (case advance N e p r of (p', r') \<Rightarrow> advance_many N e 3 p' r')"
  "advance_many N e 5 p r = (case advance N e p r of (p', r') \<Rightarrow> advance_many N e 4 p' r')"
  "advance_many N e 6 p r = (case advance N e p r of (p', r') \<Rightarrow> advance_many N e 5 p' r')"
  "advance_many N e 7 p r = (case advance N e p r of (p', r') \<Rightarrow> advance_many N e 6 p' r')"
  using advance_many.simps(2) [of N e 3 p r] advance_many.simps(2) [of N e 4 p r]
    advance_many.simps(2) [of N e 5 p r] advance_many.simps(2) [of N e 6 p r]
  by simp_all

lemma advance_rest:
  "advance_many N e 6 (RawDone off) r = as_result off (write_change N e r)"
proof (cases "is_zone e \<or> is_presence e")
  case True
  note later = advance_compare_more [of N e 2 off] advance_compare_more [of N e 1 off] advance_compare_more [of N e 0 off]
  note unfold = advance_many_unfold(1-3)
  show ?thesis
  proof (cases "cache r (ev_actor e)")
    case (Some s)
    with True later show ?thesis
      by (simp add: unfold handlers_tracked getActorState_def)
  next
    case None
    note miss = None
    show ?thesis
    proof (cases "kv_Get N (ev_actor e) (world r)")
      case (Inl err)
      with True miss later show ?thesis
        by (simp add: unfold handlers_tracked getActorState_def)
    next
      case (Inr v)
      with True miss later show ?thesis
        by (cases "unmarshal_kvas v") (simp_all add: unfold handlers_tracked getActorState_def)
    qed
  qed
next
  case False
  then show ?thesis
    by (simp add: advance_many_unfold(3) write_change_def as_result_def split: prod.split sum.split)
qed

text \<open>A call alone: seven accesses suffice, and they do what \<open>Write\<close> does.\<close>

lemma write_alone:
  "advance_many N e 7 Begin r = (case Write N e r of (res, r') \<Rightarrow> (Finished res, r'))"
  by (simp add: advance_many_unfold(4) Write_def advance_rest as_result_def split: prod.split sum.split option.split)

lemma write_alone_finished:
  assumes "advance_many N e k Begin r = (p, r')" and "finished p"
  shows "p = Finished (fst (Write N e r)) \<and> r' = snd (Write N e r)"
proof -
  obtain res where p: "p = Finished res" using assms(2) by (cases p) auto
  have "advance_many N e (k + 7) Begin r = (Finished res, r')"
    by (simp add: advance_many_add assms(1) p)
  moreover have "advance_many N e (k + 7) Begin r = (case Write N e r of (res, r') \<Rightarrow> (Finished res, r'))"
    by (simp add: add.commute [of k] advance_many_add write_alone split: prod.split)
  ultimately show ?thesis by (auto simp: p split: prod.splits)
qed

section \<open>Calls for different actors\<close>

text \<open>What belongs to an actor: its cached state, its key of the bucket, the messages on its subjects.\<close>

definition subjects_of :: "string \<Rightarrow> string set" where
  "subjects_of a = {rawSubject a, zoneSubject a, presenceSubject a, commandSubject a}"

definition actor_view ::
  "('w \<Rightarrow> (string \<times> payload) list) \<Rightarrow> ('w \<Rightarrow> string \<Rightarrow> payload option) \<Rightarrow> string \<Rightarrow> 'w repository
    \<Rightarrow> actorState option \<times> payload option \<times> (string \<times> payload) list" where
  "actor_view log kv a r =
     (cache r a, kv (world r) a, filter (\<lambda>m. fst m \<in> subjects_of a) (log (world r)))"

text \<open>A phase without the offset of the raw message, which depends on the other calls.\<close>

fun erase :: "phase \<Rightarrow> phase" where
  "erase Begin = Begin"
| "erase (RawDone off) = RawDone ''''"
| "erase (Missed off) = Missed ''''"
| "erase (Fetched off s) = Fetched '''' s"
| "erase (Compared off s) = Compared '''' s"
| "erase (Published off s) = Published '''' s"
| "erase (Cached off s) = Cached '''' s"
| "erase (Finished res) = (case res of Inl err \<Rightarrow> Finished (Inl err) | Inr off \<Rightarrow> Finished (Inr ''''))"

lemma erase_compare: "erase (compare e off s) = erase (compare e off' s)"
  by (simp add: compare_def)

lemma subjects_of_other: "a \<noteq> b \<Longrightarrow> subj \<in> subjects_of a \<Longrightarrow> subj \<notin> subjects_of b"
  by (auto simp: subjects_of_def)

lemma publish_view:
  assumes "reliable N log kv A" and "ev_actor e \<in> A" and "event_wire_ok e" and "subj \<in> subjects_of (ev_actor e)"
  obtains off r1 where "publish N subj e r = (Inr off, r1)"
    "\<And>b. actor_view log kv b r1 = (case actor_view log kv b r of (c, k, ms) \<Rightarrow>
       (c, k, if b = ev_actor e then ms @ [(subj, payload_of e)] else ms))"
proof -
  from publish_reliable [OF assms(1-3), of subj r] assms(4) obtain w' where
    w': "publish N subj e r = (Inr (encodeOffset (of_nat (length (log w')))), r\<lparr>world := w'\<rparr>)"
    "log w' = log (world r) @ [(subj, payload_of e)]" "kv w' = kv (world r)"
    by (auto simp: subjects_of_def)
  show thesis
    by (rule that [OF w'(1)])
      (use assms(4) subjects_of_other [of "ev_actor e" _ subj] in \<open>auto simp: actor_view_def w'(2,3)\<close>)
qed

lemma persist_view:
  assumes "reliable N log kv A" and "a \<in> A"
  shows "actor_view log kv b (snd (persistActorState N a s r)) = (case actor_view log kv b r of (c, k, ms) \<Rightarrow>
     (c, if b = a then Some (Payload (projr (enc_kvas (kv_of_actorState s)))) else k, ms))"
proof -
  obtain j where j: "enc_kvas (kv_of_actorState s) = Inr j" by (simp add: enc_kvas_def)
  from assms obtain rev w' where "kv_Put N a (Payload j) (world r) = (Inr rev, w')"
    "log w' = log (world r)" "kv w' = (kv (world r))(a \<mapsto> Payload j)"
    unfolding reliable_def by meson
  with j show ?thesis by (simp add: persistActorState_def actor_view_def)
qed

lemma setActorState_view:
  "actor_view log kv b (setActorState a s r) = (case actor_view log kv b r of (c, k, ms) \<Rightarrow>
     (if b = a then Some s else c, k, ms))"
  by (simp add: setActorState_def actor_view_def)

text \<open>An access of a call depends on the view of its actor only, and leaves the other views alone.\<close>

lemma advance_frame:
  assumes "reliable N log kv A" and "ev_actor e \<in> A" and "event_wire_ok e" and "b \<noteq> ev_actor e"
  shows "actor_view log kv b (snd (advance N e p r)) = actor_view log kv b r"
proof -
  have pub: "\<exists>off r1. publish N subj e r = (Inr off, r1) \<and> actor_view log kv b r1 = actor_view log kv b r"
    if "subj \<in> subjects_of (ev_actor e)" for subj
    by (rule publish_view [OF assms(1-3) that, of r]) (use assms(4) in \<open>auto split: prod.split\<close>)
  have subj: "rawSubject (ev_actor e) \<in> subjects_of (ev_actor e)" "tracked_subject e \<in> subjects_of (ev_actor e)"
    "commandSubject (ev_actor e) \<in> subjects_of (ev_actor e)"
    by (simp_all add: subjects_of_def tracked_subject_def)
  note pubs = subj [THEN pub]
  show ?thesis
  proof (cases p)
    case Begin
    with pubs(1) show ?thesis by auto
  next
    case (RawDone off)
    with pubs(3) show ?thesis by (auto split: option.split sum.split)
  next
    case (Missed off)
    then show ?thesis by (simp split: sum.split)
  next
    case (Compared off s)
    with pubs(2) show ?thesis by auto
  next
    case (Cached off s)
    with assms(4) show ?thesis by (simp add: persist_view [OF assms(1,2)] split: prod.split)
  qed (use assms(4) in \<open>simp_all add: setActorState_view split: prod.split\<close>)
qed

lemma advance_local:
  assumes "reliable N log kv A" and "ev_actor e \<in> A" and "event_wire_ok e"
    and "erase p = erase p'" and "actor_view log kv (ev_actor e) r = actor_view log kv (ev_actor e) r'"
  shows "erase (fst (advance N e p r)) = erase (fst (advance N e p' r'))
    \<and> actor_view log kv (ev_actor e) (snd (advance N e p r)) = actor_view log kv (ev_actor e) (snd (advance N e p' r'))"
proof -
  let ?a = "ev_actor e" and ?view = "actor_view log kv (ev_actor e)"
  have view: "cache r ?a = cache r' ?a" "kv (world r) ?a = kv (world r') ?a"
    using assms(5) by (simp_all add: actor_view_def)
  have get: "kv_Get N ?a (world r) = kv_Get N ?a (world r')"
    using assms(1,2) view(2) unfolding reliable_def by metis
  have pub: "\<exists>off r1 off' r1'. publish N subj e r = (Inr off, r1) \<and> publish N subj e r' = (Inr off', r1') \<and> ?view r1 = ?view r1'"
    if subj: "subj \<in> subjects_of ?a" for subj
  proof -
    from publish_view [OF assms(1-3) subj, of r] obtain off r1 where 1: "publish N subj e r = (Inr off, r1)"
      "\<And>b. actor_view log kv b r1 = (case actor_view log kv b r of (c, k, ms) \<Rightarrow>
         (c, k, if b = ?a then ms @ [(subj, payload_of e)] else ms))" by blast
    from publish_view [OF assms(1-3) subj, of r'] obtain off' r1' where 2: "publish N subj e r' = (Inr off', r1')"
      "\<And>b. actor_view log kv b r1' = (case actor_view log kv b r' of (c, k, ms) \<Rightarrow>
         (c, k, if b = ?a then ms @ [(subj, payload_of e)] else ms))" by blast
    have "?view r1 = ?view r1'" by (simp add: 1(2) 2(2) assms(5))
    with 1(1) 2(1) show ?thesis by blast
  qed
  have subj: "rawSubject ?a \<in> subjects_of ?a" "tracked_subject e \<in> subjects_of ?a" "commandSubject ?a \<in> subjects_of ?a"
    by (simp_all add: subjects_of_def tracked_subject_def)
  note pubs = subj [THEN pub]
  show ?thesis
  proof (cases p)
    case Begin
    with assms(4) have "p' = Begin" by (cases p') (auto split: sum.splits)
    with Begin pubs(1) show ?thesis by auto
  next
    case (RawDone off)
    with assms(4) obtain off' where "p' = RawDone off'" by (cases p') (auto split: sum.splits)
    with RawDone pubs(3) assms(5) view erase_compare [of e off _ off'] show ?thesis
      by (auto split: option.split sum.split)
  next
    case (Missed off)
    with assms(4) obtain off' where "p' = Missed off'" by (cases p') (auto split: sum.splits)
    with Missed assms(5) get erase_compare [of e off _ off'] show ?thesis by (simp split: sum.split)
  next
    case (Fetched off s)
    with assms(4) obtain off' where "p' = Fetched off' s" by (cases p') (auto split: sum.splits)
    with Fetched assms(5) erase_compare [of e off s off'] show ?thesis by (simp add: setActorState_view)
  next
    case (Compared off s)
    with assms(4) obtain off' where "p' = Compared off' s" by (cases p') (auto split: sum.splits)
    with Compared pubs(2) show ?thesis by auto
  next
    case (Published off s)
    with assms(4) obtain off' where "p' = Published off' s" by (cases p') (auto split: sum.splits)
    with Published assms(5) show ?thesis by (simp add: setActorState_view)
  next
    case (Cached off s)
    with assms(4) obtain off' where "p' = Cached off' s" by (cases p') (auto split: sum.splits)
    with Cached assms(5) show ?thesis by (simp add: persist_view [OF assms(1,2)])
  next
    case (Finished res)
    with assms(4) obtain res' where "p' = Finished res'" by (cases p'; cases res) auto
    with Finished assms(4,5) show ?thesis by simp
  qed
qed

text \<open>
  The invariant of an interleaving: each call stands where it would stand alone after some
  number of accesses, its actor's view with it, and the views of the other actors are untouched.
\<close>

definition conc_inv ::
  "'w nats \<Rightarrow> ('w \<Rightarrow> (string \<times> payload) list) \<Rightarrow> ('w \<Rightarrow> string \<Rightarrow> payload option) \<Rightarrow> event list \<Rightarrow> 'w repository
    \<Rightarrow> phase list \<times> 'w repository \<Rightarrow> bool" where
  "conc_inv N log kv es r0 x \<longleftrightarrow>
     (case x of (ps, r) \<Rightarrow>
        length ps = length es
        \<and> (\<forall>i < length es. \<exists>k. erase (ps ! i) = erase (fst (advance_many N (es ! i) k Begin r0))
             \<and> actor_view log kv (ev_actor (es ! i)) r
                = actor_view log kv (ev_actor (es ! i)) (snd (advance_many N (es ! i) k Begin r0)))
        \<and> (\<forall>b. b \<notin> ev_actor ` set es \<longrightarrow> actor_view log kv b r = actor_view log kv b r0))"

lemma conc_inv_start: "conc_inv N log kv es r0 (replicate (length es) Begin, r0)"
  by (auto simp: conc_inv_def intro!: exI [of _ "0::nat"])

lemma conc_inv_step:
  assumes "reliable N log kv A" and "events_ok A es" and "distinct (map ev_actor es)"
    and inv: "conc_inv N log kv es r0 x" and step: "conc_step N es x i y"
  shows "conc_inv N log kv es r0 y"
proof -
  obtain ps r p' r' where x: "x = (ps, r)" and y: "y = (ps[i := p'], r')" and i: "i < length es"
    and adv: "advance N (es ! i) (ps ! i) r = (p', r')"
    using step by (auto elim: conc_step.cases)
  from inv x have len: "length ps = length es" by (simp add: conc_inv_def)
  have e: "ev_actor (es ! i) \<in> A" "event_wire_ok (es ! i)"
    using assms(2) i by (simp_all add: events_ok_def list_all_length)
  note frame = advance_frame [OF assms(1) e, of _ "ps ! i" r, unfolded adv snd_conv]
  have "\<exists>k. erase (ps[i := p'] ! j) = erase (fst (advance_many N (es ! j) k Begin r0))
      \<and> actor_view log kv (ev_actor (es ! j)) r'
        = actor_view log kv (ev_actor (es ! j)) (snd (advance_many N (es ! j) k Begin r0))"
    if j: "j < length es" for j
  proof -
    from inv x j obtain k where k: "erase (ps ! j) = erase (fst (advance_many N (es ! j) k Begin r0))"
      "actor_view log kv (ev_actor (es ! j)) r
        = actor_view log kv (ev_actor (es ! j)) (snd (advance_many N (es ! j) k Begin r0))"
      by (auto simp: conc_inv_def)
    show ?thesis
    proof (cases "j = i")
      case True
      obtain q z where alone: "advance_many N (es ! i) k Begin r0 = (q, z)" by force
      with k True have "erase (ps ! i) = erase q"
        and "actor_view log kv (ev_actor (es ! i)) r = actor_view log kv (ev_actor (es ! i)) z" by simp_all
      from advance_local [OF assms(1) e this] adv
      have "erase p' = erase (fst (advance N (es ! i) q z))"
        and "actor_view log kv (ev_actor (es ! i)) r' = actor_view log kv (ev_actor (es ! i)) (snd (advance N (es ! i) q z))"
        by simp_all
      moreover have "advance_many N (es ! i) (Suc k) Begin r0 = advance N (es ! i) q z"
        unfolding advance_many_snoc alone by simp
      ultimately show ?thesis using True len i by (intro exI [of _ "Suc k"]) simp
    next
      case False
      with assms(3) i j have "ev_actor (es ! j) \<noteq> ev_actor (es ! i)"
        by (auto simp: distinct_conv_nth)
      with frame k False show ?thesis by auto
    qed
  qed
  moreover have "actor_view log kv b r' = actor_view log kv b r0" if "b \<notin> ev_actor ` set es" for b
  proof -
    from that i have "b \<noteq> ev_actor (es ! i)" by (metis image_eqI nth_mem)
    with that inv x frame show ?thesis by (simp add: conc_inv_def)
  qed
  ultimately show ?thesis by (simp add: conc_inv_def y len)
qed

section \<open>Calls for the same actor\<close>

text \<open>Several accesses of one call in a row are steps of the interleaving.\<close>

lemma conc_run:
  assumes "i < length es" and "i < length ps"
  shows "steps (conc_step N es) (ps, r) (replicate k i)
    (ps[i := fst (advance_many N (es ! i) k (ps ! i) r)], snd (advance_many N (es ! i) k (ps ! i) r))"
  using assms
proof (induction k arbitrary: ps r)
  case (Suc k)
  obtain p' r' where adv: "advance N (es ! i) (ps ! i) r = (p', r')" by force
  then have "conc_step N es (ps, r) i (ps[i := p'], r')" by (rule conc_step.access [OF Suc.prems(1)])
  with Suc.IH [of "ps[i := p']" r'] Suc.prems adv show ?case by (auto intro: steps.more)
qed simp

text \<open>On a reliable NATS: up to the comparison, and from there to the end.\<close>

lemma reach_compared:
  assumes "reliable N log kv A" and "ev_actor e \<in> A" and "event_wire_ok e" and "coherent kv A r"
    and "is_zone e \<or> is_presence e" and "\<not> state_unchanged (store_state_of kv r (ev_actor e)) e"
  obtains k off r1 where "advance_many N e k Begin r = (Compared off (store_state_of kv r (ev_actor e)), r1)"
    "store_state_of kv r1 = store_state_of kv r" "coherent kv A r1"
proof -
  let ?a = "ev_actor e"
  from publish_reliable [OF assms(1-3), of "rawSubject ?a" r] obtain w' off where
    raw: "publish N (rawSubject ?a) e r = (Inr off, r\<lparr>world := w'\<rparr>)" and kv: "kv w' = kv (world r)"
    by blast
  let ?r = "r\<lparr>world := w'\<rparr>"
  have coh: "coherent kv A ?r" by (rule coherent_world [OF assms(4) kv])
  have same: "store_state_of kv ?r = store_state_of kv r" using kv by (auto simp: store_state_of_def)
  have get: "kv_Get N ?a w' = (case kv w' ?a of None \<Rightarrow> Inl ErrKeyNotFound | Some v \<Rightarrow> Inr v)"
    using assms(1,2) unfolding reliable_def by blast
  have cmp: "compare e off (store_state_of kv r ?a) = Compared off (store_state_of kv r ?a)"
    using assms(6) by (simp add: compare_def)
  show thesis
  proof (cases "cache r ?a")
    case (Some s)
    then have "s = store_state_of kv r ?a"
      using assms(2,4) by (simp add: coherent_def store_state_of_def)
    with Some raw assms(5) cmp show thesis
      by (intro that [of 2 off ?r]) (simp_all add: numeral_2_eq_2 coh same)
  next
    case None
    note miss = None
    show thesis
    proof (cases "kv w' ?a")
      case None
      then have "store_state_of kv r ?a = zero_actorState"
        using kv by (simp add: store_state_of_def)
      with None miss raw get assms(5) cmp show thesis
        by (intro that [of 3 off ?r]) (simp_all add: numeral_3_eq_3 coh same)
    next
      case (Some p)
      with kv have p: "kv (world r) ?a = Some p" by simp
      with assms(2,4) obtain v where v: "unmarshal_kvas p = Inr v"
        by (cases "unmarshal_kvas p") (auto simp: coherent_def)
      let ?r2 = "setActorState ?a (actorState_of_kv v) ?r"
      have st: "store_state_of kv r ?a = actorState_of_kv v"
        using p v by (simp add: store_state_of_def stored_def)
      have "coherent kv A ?r2"
        using coh Some v by (auto simp: coherent_def setActorState_def stored_def)
      moreover have "store_state_of kv ?r2 = store_state_of kv r"
        using same by (simp add: setActorState_def store_state_of_def fun_eq_iff)
      ultimately show thesis
        using Some miss raw get assms(5) cmp v st
        by (intro that [of 4 off ?r2]) (simp_all add: eval_nat_numeral)
    qed
  qed
qed

lemma finish_compared:
  assumes "reliable N log kv A" and "ev_actor e \<in> A" and "event_wire_ok e" and "coherent kv A r"
    and "is_zone e \<or> is_presence e" and "actor_state_ok s"
  obtains r1 where "advance_many N e 3 (Compared off s) r = (Finished (Inr off), r1)"
    "store_state_of kv r1 = (store_state_of kv r)(ev_actor e := state_recorded s e)" "coherent kv A r1"
proof -
  have ok: "actor_state_ok (state_recorded s e)"
    using recorded_ok [OF assms(3,6)] by (simp add: state_recorded_def)
  have "tracked_subject e \<in> {rawSubject (ev_actor e), zoneSubject (ev_actor e), presenceSubject (ev_actor e),
      commandSubject (ev_actor e)}"
    by (simp add: tracked_subject_def)
  from publish_and_record [OF assms(1-4) this ok] obtain off' r2 r3 where
    "publish N (tracked_subject e) e r = (Inr off', r2)"
    "persistActorState N (ev_actor e) (state_recorded s e) (setActorState (ev_actor e) (state_recorded s e) r2) = (None, r3)"
    "store_state_of kv r3 = (store_state_of kv r)(ev_actor e := state_recorded s e)" "coherent kv A r3"
    by blast
  then show thesis by (intro that [of r3]) (simp_all add: numeral_3_eq_3)
qed

section \<open>Properties\<close>

text \<open>
  C11: calls of \<open>Write\<close> for different actors do not disturb each other. However their accesses
  interleave, once all have finished each has succeeded, and for each actor the cached state, the
  bucket and the messages on its subjects are those that its call alone would have left; the
  other actors are untouched.
\<close>

theorem concurrent_writes_independent:
  assumes "reliable N log kv A" and "events_ok A es" and "distinct (map ev_actor es)" and "coherent kv A r"
    and "steps (conc_step N es) (replicate (length es) Begin, r) sched (ps, r')"
    and "list_all finished ps" and "e \<in> set es"
  shows "actor_view log kv (ev_actor e) r' = actor_view log kv (ev_actor e) (snd (Write N e r))
    \<and> list_all (\<lambda>p. \<exists>off. p = Finished (Inr off)) ps"
proof -
  have inv: "conc_inv N log kv es r (ps, r')"
    by (rule steps_invariant [OF assms(5), where P = "\<lambda>_. conc_inv N log kv es r"])
      (use conc_inv_start conc_inv_step [OF assms(1-3)] in auto)
  then have len: "length ps = length es" by (simp add: conc_inv_def)
  have one: "actor_view log kv (ev_actor (es ! i)) r' = actor_view log kv (ev_actor (es ! i)) (snd (Write N (es ! i) r))
      \<and> (\<exists>off. ps ! i = Finished (Inr off))" if i: "i < length es" for i
  proof -
    from inv i obtain k where k: "erase (ps ! i) = erase (fst (advance_many N (es ! i) k Begin r))"
      "actor_view log kv (ev_actor (es ! i)) r'
        = actor_view log kv (ev_actor (es ! i)) (snd (advance_many N (es ! i) k Begin r))"
      by (auto simp: conc_inv_def)
    obtain p x where adv: "advance_many N (es ! i) k Begin r = (p, x)" by force
    obtain res where res: "ps ! i = Finished res" using assms(6) i len by (cases "ps ! i") (auto simp: list_all_length)
    with k(1) adv have "finished p" by (cases p; cases res) auto
    from write_alone_finished [OF adv this] have p: "p = Finished (fst (Write N (es ! i) r))"
      and x: "x = snd (Write N (es ! i) r)" by simp_all
    have "ev_actor (es ! i) \<in> A" and "event_wire_ok (es ! i)"
      using assms(2) i by (simp_all add: events_ok_def list_all_length)
    from Write_store [OF assms(1) this assms(4)] obtain off where "fst (Write N (es ! i) r) = Inr off"
      by (metis fst_conv)
    with k adv p x res show ?thesis by (cases res) auto
  qed
  moreover obtain i where "i < length es" and "e = es ! i" using assms(7) by (auto simp: in_set_conv_nth)
  ultimately show ?thesis by (auto simp: list_all_length len)
qed

text \<open>
  C12: calls of \<open>Write\<close> for the same actor can lose an update. Whenever a zone event and a presence
  event of an actor both are changes, some interleaving of their calls ends with both calls
  successful and the zone forgotten: the state recorded is the one before the calls with the
  presence only, so that the same zone event, written again, counts as a change again.
\<close>

theorem concurrent_writes_lose_update:
  assumes "reliable N log kv A" and "coherent kv A r" and "events_ok A [e, f]" and "ev_actor f = ev_actor e"
    and "is_zone e" and "is_presence f"
    and "\<not> zone_unchanged (store_state_of kv r (ev_actor e)) e"
    and "\<not> presence_unchanged (store_state_of kv r (ev_actor e)) f"
  shows "\<exists>sched off off' r'. steps (conc_step N [e, f]) ([Begin, Begin], r) sched
        ([Finished (Inr off), Finished (Inr off')], r')
    \<and> store_state_of kv r' (ev_actor e) = presence_recorded (store_state_of kv r (ev_actor e)) f
    \<and> \<not> zone_unchanged (store_state_of kv r' (ev_actor e)) e"
proof -
  let ?s = "store_state_of kv r (ev_actor e)" and ?step = "conc_step N [e, f]"
  have e: "ev_actor e \<in> A" "event_wire_ok e" and f: "ev_actor f \<in> A" "event_wire_ok f"
    using assms(3) by (simp_all add: events_ok_def)
  have ch: "\<not> state_unchanged ?s e" "\<not> state_unchanged ?s f"
    using assms(5-8) by (simp_all add: state_unchanged_def)
  have ok: "actor_state_ok ?s" using assms(2) e(1) by (simp add: coherent_def store_state_of_def)
  from reach_compared [OF assms(1) e assms(2) _ ch(1)] assms(5) obtain k1 off r1 where
    1: "advance_many N e k1 Begin r = (Compared off ?s, r1)"
      "store_state_of kv r1 = store_state_of kv r" "coherent kv A r1" by blast
  from reach_compared [OF assms(1) f 1(3)] ch(2) assms(4,6) 1(2) obtain k2 off' r2 where
    2: "advance_many N f k2 Begin r1 = (Compared off' ?s, r2)"
      "store_state_of kv r2 = store_state_of kv r1" "coherent kv A r2" by metis
  from finish_compared [OF assms(1) e 2(3) _ ok, of off] assms(5) obtain r3 where
    3: "advance_many N e 3 (Compared off ?s) r2 = (Finished (Inr off), r3)" "coherent kv A r3"
      "store_state_of kv r3 = (store_state_of kv r2)(ev_actor e := state_recorded ?s e)" by blast
  from finish_compared [OF assms(1) f 3(2) _ ok, of off'] assms(6) obtain r4 where
    4: "advance_many N f 3 (Compared off' ?s) r3 = (Finished (Inr off'), r4)"
      "store_state_of kv r4 = (store_state_of kv r3)(ev_actor f := state_recorded ?s f)" by blast
  have "steps ?step ([Begin, Begin], r) (replicate k1 0) ([Compared off ?s, Begin], r1)"
    using conc_run [of 0 "[e, f]" "[Begin, Begin]" N r k1] 1(1) by simp
  moreover have "steps ?step ([Compared off ?s, Begin], r1) (replicate k2 1) ([Compared off ?s, Compared off' ?s], r2)"
    using conc_run [of 1 "[e, f]" "[Compared off ?s, Begin]" N r1 k2] 2(1) by simp
  moreover have "steps ?step ([Compared off ?s, Compared off' ?s], r2) (replicate 3 0) ([Finished (Inr off), Compared off' ?s], r3)"
    using conc_run [of 0 "[e, f]" "[Compared off ?s, Compared off' ?s]" N r2 3] 3(1) by simp
  moreover have "steps ?step ([Finished (Inr off), Compared off' ?s], r3) (replicate 3 1) ([Finished (Inr off), Finished (Inr off')], r4)"
    using conc_run [of 1 "[e, f]" "[Finished (Inr off), Compared off' ?s]" N r3 3] 4(1) by simp
  ultimately have run: "steps ?step ([Begin, Begin], r)
      (replicate k1 0 @ replicate k2 1 @ replicate 3 0 @ replicate 3 1) ([Finished (Inr off), Finished (Inr off')], r4)"
    unfolding steps_append by blast
  have "store_state_of kv r4 (ev_actor e) = presence_recorded ?s f"
    using 4(2) assms(4,6) by (simp add: state_recorded_def)
  with run assms(7) show ?thesis by (metis zone_unchanged_presence)
qed

theorem concurrent_writes_lose_update_witness:
  "\<exists>sched off off' r'. steps (conc_step mem_nats [sample_event, sample_presence]) ([Begin, Begin], fresh) sched
        ([Finished (Inr off), Finished (Inr off')], r')
    \<and> \<not> zone_unchanged (store_state_of snd r' ''tag'') sample_event"
proof -
  have ok: "events_ok {''tag''} [sample_event, sample_presence]" by (simp add: events_ok_def)
  have zero: "store_state_of snd fresh (ev_actor sample_event) = zero_actorState"
    by (simp add: store_state_of_def fresh_def)
  from concurrent_writes_lose_update [OF mem_nats_reliable fresh_coherent ok, unfolded zero] show ?thesis
    by (simp del: conc_step_simps) blast
qed

theorem concurrent_writes_independent_witness:
  "\<exists>sched ps r'. steps (conc_step mem_nats [sample_event, other_event]) ([Begin, Begin], fresh) sched (ps, r')
    \<and> actor_view fst snd ''b'' r' = actor_view fst snd ''b'' (snd (Write mem_nats other_event fresh))"
proof -
  let ?es = "[sample_event, other_event]"
  obtain p1 r1 where 1: "advance_many mem_nats sample_event 7 Begin fresh = (p1, r1)" "finished p1"
    unfolding write_alone by (cases "Write mem_nats sample_event fresh") simp
  obtain p2 r2 where 2: "advance_many mem_nats other_event 7 Begin r1 = (p2, r2)" "finished p2"
    unfolding write_alone by (cases "Write mem_nats other_event r1") simp
  have "steps (conc_step mem_nats ?es) ([Begin, Begin], fresh) (replicate 7 0) ([p1, Begin], r1)"
    using conc_run [of 0 ?es "[Begin, Begin]" mem_nats fresh 7] 1(1) by simp
  moreover have "steps (conc_step mem_nats ?es) ([p1, Begin], r1) (replicate 7 1) ([p1, p2], r2)"
    using conc_run [of 1 ?es "[p1, Begin]" mem_nats r1 7] 2(1) by simp
  ultimately have run: "steps (conc_step mem_nats ?es) (replicate (length ?es) Begin, fresh)
      (replicate 7 0 @ replicate 7 1) ([p1, p2], r2)"
    unfolding steps_append by (auto simp: numeral_2_eq_2)
  have "events_ok {''tag'', ''b''} ?es" by (simp add: events_ok_def)
  from concurrent_writes_independent [OF mem_nats_reliable this _ _ run, of other_event] 1(2) 2(2)
  have "actor_view fst snd (ev_actor other_event) r2
      = actor_view fst snd (ev_actor other_event) (snd (Write mem_nats other_event fresh))" by simp
  with run show ?thesis by (auto simp: numeral_2_eq_2)
qed

end
