(* ===== verification/EventTypes.thy ===== *)
theory EventTypes
  imports TagView
begin

text \<open>
  The type of what the adapter hands to the service: which events can leave a run of reads at
  all, in every field that consumers look at. No assumption is made on the reads: packets may be
  malformed, the map may be iterated in any order, even with repetitions.
\<close>

section \<open>The type of an event\<close>

definition metadata_keys :: "string set" where
  "metadata_keys = {''tagName'', ''tagGroupName'', ''locationType'', ''movementStatus''}"

definition event_typed :: "event \<Rightarrow> bool" where
  "event_typed e \<longleftrightarrow>
     ev_actor e \<noteq> ''''
     \<and> (ev_Type e = EventTypeZone \<and> ev_presence e = PresenceTypeActive
        \<or> ev_Type e = EventTypePresence \<and> ev_presence e \<in> {PresenceTypeActive, PresenceTypeInactive})
     \<and> (\<exists>i. 0 \<le> i \<and> i \<le> 2 \<and> ev_ID e = eventID (ev_actor e) (ev_Timestamp e) i)
     \<and> st_Location (ev_State e) \<noteq> None \<and> st_Command (ev_State e) = None
     \<and> pres_Since (st_Presence (ev_State e)) = ev_Timestamp e
     \<and> fset (fmdom (actor_Metadata (ev_Actor e))) \<subseteq> metadata_keys"

lemma put_nonempty_keys:
  "k \<in> metadata_keys \<Longrightarrow> fset (fmdom md) \<subseteq> metadata_keys \<Longrightarrow> fset (fmdom (put_nonempty k v md)) \<subseteq> metadata_keys"
  by (auto simp: put_nonempty_def)

lemma metadata_keys_known:
  "''tagName'' \<in> metadata_keys" "''tagGroupName'' \<in> metadata_keys"
  "''locationType'' \<in> metadata_keys" "''movementStatus'' \<in> metadata_keys"
  by (simp_all add: metadata_keys_def)

lemma metadata_ok:
  "fset (fmdom (actorMetadata msg)) \<subseteq> metadata_keys" "fset (fmdom (actorMetadataFromState st)) \<subseteq> metadata_keys"
  by (simp_all add: actorMetadata_def actorMetadataFromState_def put_nonempty_keys metadata_keys_known)

lemma typed_zoneEvent:
  "TagID msg \<noteq> '''' \<Longrightarrow> 0 \<le> i \<Longrightarrow> i \<le> 2 \<Longrightarrow> event_typed (zoneEvent msg now zs i)"
  by (auto simp: event_typed_def zoneEvent_def ev_presence_def metadata_ok)

lemma typed_presenceEvent:
  "TagID msg \<noteq> '''' \<Longrightarrow> 0 \<le> i \<Longrightarrow> i \<le> 2 \<Longrightarrow> pt \<in> {PresenceTypeActive, PresenceTypeInactive} \<Longrightarrow>
     event_typed (presenceEvent msg now zs pt i)"
  by (auto simp: event_typed_def presenceEvent_def ev_presence_def metadata_ok)

lemma typed_watchdogEvent: "a \<noteq> '''' \<Longrightarrow> event_typed (watchdogEvent a st now)"
  by (auto simp: event_typed_def watchdogEvent_def ev_presence_def metadata_ok intro!: exI [of _ "0::int"])

section \<open>One read\<close>

lemma deriveEvents_typed:
  assumes "TagID msg \<noteq> ''''"
  shows "list_all event_typed (fst (deriveEvents prev msg now))"
  using assms
  by (auto simp: derive_defs Let_def intro!: typed_zoneEvent typed_presenceEvent)

lemma sweep_typed:
  assumes "'''' \<notin> dom S" and "list_all event_typed w"
  shows "case runWatchdog ids S now collect w of (err, S', w') \<Rightarrow> list_all event_typed w' \<and> dom S' = dom S"
  using assms
proof (induction ids arbitrary: S w)
  case (Cons a ids)
  show ?case
  proof (cases "S a")
    case None
    with Cons show ?thesis by simp
  next
    case (Some st)
    then have "a \<noteq> ''''" using Cons.prems(1) by auto
    then have "list_all event_typed (w @ [watchdogEvent a st now])"
      using Cons.prems(2) by (simp add: typed_watchdogEvent)
    moreover have dom: "dom (S(a \<mapsto> st\<lparr>online := False\<rparr>)) = dom S" using Some by auto
    ultimately have "case runWatchdog ids (S(a \<mapsto> st\<lparr>online := False\<rparr>)) now collect (w @ [watchdogEvent a st now]) of
        (err, S', w') \<Rightarrow> list_all event_typed w' \<and> dom S' = dom S"
      using Cons.IH [of "S(a \<mapsto> st\<lparr>online := False\<rparr>)" "w @ [watchdogEvent a st now]", unfolded dom] Cons.prems(1)
      by (simp only: not_False_eq_True)
    moreover have "runWatchdog (a # ids) S now collect w =
        (if watchdog_skips st now then runWatchdog ids S now collect w
         else runWatchdog ids (S(a \<mapsto> st\<lparr>online := False\<rparr>)) now collect (w @ [watchdogEvent a st now]))"
      using Some by (simp add: collect_def)
    ultimately show ?thesis
      using Cons.IH [OF Cons.prems] by (simp del: runWatchdog.simps)
  qed
qed simp

interpretation typed: io_machine "loop_read decoder" Map.empty "\<lambda>rd. True"
  "\<lambda>reads evs (S :: tag_states). list_all event_typed evs \<and> '''' \<notin> dom S"
  for decoder :: "'b \<Rightarrow> string + udpMsg"
proof unfold_locales
  fix rd and reads :: "'b read list" and evs and S :: tag_states
  assume inv: "list_all event_typed evs \<and> '''' \<notin> dom S"
  show "list_all event_typed (evs @ fst (loop_read decoder S rd)) \<and> '''' \<notin> dom (snd (loop_read decoder S rd))"
  proof (cases rd)
    case (ReadPacket b clk)
    show ?thesis
    proof (cases "parseDatagram decoder b")
      case (Inl reason)
      with inv ReadPacket show ?thesis by (simp add: handle_datagram_def)
    next
      case (Inr msg)
      from deriveEvents_typed [OF wf_msgD(1) [OF parseDatagram_wf [OF Inr]]] wf_msgD(1) [OF parseDatagram_wf [OF Inr]] inv ReadPacket show ?thesis
        by (auto simp: handle_datagram_accepted [OF Inr] case_prod_beta)
    qed
  next
    case (ReadDeadline ids now)
    obtain err S' w where sweep: "runWatchdog ids S now collect [] = (err, S', w)" using prod_cases3 by blast
    from sweep_typed [of S "[]" ids now] inv sweep have "list_all event_typed w" "dom S' = dom S" by simp_all
    with inv sweep ReadDeadline show ?thesis by simp
  next
    case (ReadError err)
    with inv show ?thesis by simp
  qed
qed simp

section \<open>Properties\<close>

text \<open>
  C27: every event that leaves a run of reads is well typed, whatever the datagrams, the order of
  the sweeps and the clock: it is a zone event that says active or a presence event that says
  active or inactive, about a named tag, with an identifier numbered 0 to 2 of its tag and
  time, with a location and without a command, its presence dated like the event, and with
  metadata under the four known keys only.
\<close>

theorem derived_events_typed:
  "list_all event_typed (fst (feed decoder reads))"
  using typed.inv_run [of reads decoder] by (simp add: feed_def list_all_iff)

end
