(* ===== verification/WatchOrder.thy ===== *)
theory WatchOrder
  imports Watch "HOL-Library.Multiset"
begin

text \<open>
  The order in which \<open>Watch\<close> delivers. Each watched subject pattern has a subscription of its own,
  NATS keeps the order within a subscription, and all subscriptions put their messages into
  one channel: what arrives is some interleaving of the subscriptions' queues.
\<close>

section \<open>Interleavings\<close>

text \<open>\<open>arrives qs ms\<close>: the queues \<open>qs\<close> are taken from one message at a time until all are empty.\<close>

inductive arrives :: "'m list list \<Rightarrow> 'm list \<Rightarrow> bool" where
  drained: "\<forall>q \<in> set qs. q = [] \<Longrightarrow> arrives qs []"
| take_from: "i < length qs \<Longrightarrow> qs ! i = m # rest \<Longrightarrow> arrives (qs[i := rest]) ms \<Longrightarrow> arrives qs (m # ms)"

text \<open>Each queue arrives in its own order, and nothing is lost or repeated.\<close>

lemma arrives_subseq: "arrives qs ms \<Longrightarrow> i < length qs \<Longrightarrow> subseq (qs ! i) ms"
proof (induction rule: arrives.induct)
  case (drained qs)
  then have "qs ! i = []" by (meson nth_mem)
  then show ?case by simp
next
  case (take_from j qs m rest ms)
  then have "subseq (qs[j := rest] ! i) ms" by simp
  with take_from.hyps(1,2) take_from.prems show ?case by (cases "i = j") auto
qed

lemma mset_concat_update:
  "i < length qs \<Longrightarrow> mset (concat (qs[i := q])) + mset (qs ! i) = mset (concat qs) + mset q"
proof (induction qs arbitrary: i)
  case (Cons p qs)
  show ?case
  proof (cases i)
    case (Suc j)
    with Cons.IH [of j] Cons.prems have "mset (concat (qs[j := q])) + mset (qs ! j) = mset (concat qs) + mset q"
      by simp
    with Suc show ?thesis by (simp add: ac_simps)
  qed (simp add: ac_simps)
qed simp

lemma arrives_mset: "arrives qs ms \<Longrightarrow> mset ms = mset (concat qs)"
proof (induction rule: arrives.induct)
  case (drained qs)
  then have "concat qs = []" by auto
  then show ?case by (simp only: mset.simps)
next
  case (take_from i qs m rest ms)
  with mset_concat_update [of i qs rest] show ?case by simp
qed

text \<open>Any queue may come first, and from there the others can always be drained.\<close>

lemma arrives_exists: "\<exists>ms. arrives qs ms"
proof (induction "size_list length qs" arbitrary: qs rule: less_induct)
  case less
  show ?case
  proof (cases "\<forall>q \<in> set qs. q = []")
    case True
    then show ?thesis by (blast intro: arrives.drained)
  next
    case False
    then obtain i m rest where i: "i < length qs" "qs ! i = m # rest"
      by (metis in_set_conv_nth neq_Nil_conv)
    have "size_list length (qs[i := rest]) < size_list length qs"
      using i by (induction qs arbitrary: i) (auto simp: nth_Cons less_Suc_eq_0_disj split: nat.split)
    with less obtain ms where "arrives (qs[i := rest]) ms" by blast
    with i show ?thesis by (blast intro: arrives.take_from)
  qed
qed

lemma arrives_first:
  assumes "i < length qs" and "qs ! i = m # rest"
  shows "\<exists>ms. arrives qs (m # ms)"
  using arrives_exists [of "qs[i := rest]"] arrives.take_from [OF assms] by blast

section \<open>Deliveries\<close>

definition decodable :: "nats_msg list \<Rightarrow> (event \<times> string) list" where
  "decodable = List.map_filter (\<lambda>m. case decode m of Inl _ \<Rightarrow> None | Inr x \<Rightarrow> Some x)"

lemma decodable_simps [simp]: "decodable [] = []"
  "decodable (m # ms) = (case decode m of Inl _ \<Rightarrow> decodable ms | Inr x \<Rightarrow> x # decodable ms)"
  by (simp_all add: decodable_def List.map_filter_simps split: sum.split)

lemma due_messages: "due (map Msg ms @ [Done err]) = decodable ms \<and> loop_end (map Msg ms @ [Done err]) = Returned (Some err)"
  by (induction ms) (auto split: sum.split)

lemma subseq_decodable: "subseq xs ys \<Longrightarrow> subseq (decodable xs) (decodable ys)"
  by (induction rule: list_emb.induct) (auto split: sum.split)

lemma decodable_append: "decodable (xs @ ys) = decodable xs @ decodable ys"
  by (induction xs) (auto split: sum.split)

lemma decodable_concat: "decodable (concat qs) = concat (map decodable qs)"
  by (induction qs) (simp_all add: decodable_append)

lemma mset_decodable_sum: "mset (decodable xs) = (\<Sum>m \<in># mset xs. mset (decodable [m]))"
  by (induction xs) (auto split: sum.split)

lemma mset_decodable: "mset xs = mset ys \<Longrightarrow> mset (decodable xs) = mset (decodable ys)"
  using mset_decodable_sum [of xs] mset_decodable_sum [of ys] by argo

lemma watch_collects:
  assumes "watchSubjects types \<noteq> []" and "watch_opts offset = Inr opts"
    and "subscribe_all S opts (watchSubjects types) [] w = (Inr subs, w1)"
  shows "\<exists>w'. Watch S types offset (recording (\<lambda>e off. None)) (map Msg ms @ [Done err]) w [] =
    (Returned (Some err), w', decodable ms)"
proof -
  have "dropWhile (succeeds (\<lambda>e off. None)) (decodable ms) = []"
    by (simp add: succeeds_def)
  then have "watch_for (recording (\<lambda>e off. None)) (map Msg ms @ [Done err]) [] =
      (Returned (Some err), decodable ms)"
    by (simp only: watch_for_recording due_messages list.case append_Nil)
  with assms show ?thesis by (simp add: Watch_def)
qed

lemma arrives_decodable:
  assumes "arrives queues ms"
  shows "mset (decodable ms) = mset (concat (map decodable queues))"
    and "i < length queues \<Longrightarrow> subseq (decodable (queues ! i)) (decodable ms)"
  using mset_decodable [OF arrives_mset [OF assms]] arrives_subseq [OF assms]
  by (simp_all only: decodable_concat subseq_decodable)

section \<open>Properties\<close>

text \<open>
  C20: what a subscription to several event types delivers before its context ends: every
  decodable message of every watched subject exactly once, those of one subject in the order
  of the stream; but between subjects there is no order: any subject's first message may be
  the first delivered, whatever its offset, although the port promises offset order.
\<close>

theorem watch_order:
  assumes "watchSubjects types \<noteq> []" and "watch_opts offset = Inr opts"
    and "subscribe_all S opts (watchSubjects types) [] w = (Inr subs, w1)"
    and "length queues = length (watchSubjects types)"
  shows "(\<forall>ms. arrives queues ms \<longrightarrow>
      (\<exists>w' d. Watch S types offset (recording (\<lambda>e off. None)) (map Msg ms @ [Done err]) w [] = (Returned (Some err), w', d)
        \<and> mset d = mset (concat (map decodable queues))
        \<and> (\<forall>i < length queues. subseq (decodable (queues ! i)) d)))
    \<and> (\<forall>i < length queues. \<forall>m rest x. queues ! i = m # rest \<longrightarrow> decode m = Inr x \<longrightarrow>
      (\<exists>ms w' d. arrives queues ms
        \<and> Watch S types offset (recording (\<lambda>e off. None)) (map Msg ms @ [Done err]) w [] = (Returned (Some err), w', x # d)))"
proof (intro conjI allI impI)
  fix ms assume run: "arrives queues ms"
  obtain w' where w': "Watch S types offset (recording (\<lambda>e off. None)) (map Msg ms @ [Done err]) w [] =
      (Returned (Some err), w', decodable ms)"
    using watch_collects [OF assms(1-3)] by (rule exE)
  show "\<exists>w' d. Watch S types offset (recording (\<lambda>e off. None)) (map Msg ms @ [Done err]) w [] = (Returned (Some err), w', d)
      \<and> mset d = mset (concat (map decodable queues)) \<and> (\<forall>i < length queues. subseq (decodable (queues ! i)) d)"
    using w' arrives_decodable(1) [OF run] arrives_decodable(2) [OF run] by (intro exI conjI allI impI) assumption+
next
  fix i m rest x assume i: "i < length queues" "queues ! i = m # rest" and dec: "decode m = Inr x"
  obtain ms where run: "arrives queues (m # ms)" using arrives_first [OF i] by (rule exE)
  obtain w' where "Watch S types offset (recording (\<lambda>e off. None)) (map Msg (m # ms) @ [Done err]) w [] =
      (Returned (Some err), w', decodable (m # ms))"
    using watch_collects [OF assms(1-3)] by (rule exE)
  with dec have w': "Watch S types offset (recording (\<lambda>e off. None)) (map Msg (m # ms) @ [Done err]) w [] =
      (Returned (Some err), w', x # decodable ms)" by (simp only: decodable_simps sum.case)
  from run w' show "\<exists>ms w' d. arrives queues ms
      \<and> Watch S types offset (recording (\<lambda>e off. None)) (map Msg ms @ [Done err]) w [] = (Returned (Some err), w', x # d)"
    by (intro exI conjI)
qed

text \<open>
  Two subjects, each with one message in its queue: the zone message of the higher offset
  can be delivered first.
\<close>

definition later_msg :: nats_msg where
  "later_msg = sample_msg\<lparr>msg_Metadata := Inr 9\<rparr>"

lemma decode_later: "decode later_msg = Inr (sample_event, ''009'')"
proof -
  have "encodeOffset 9 = ''009''" by code_simp
  with decode_sample show ?thesis
    by (auto simp: decode_def later_msg_def sample_msg_def split: sum.splits)
qed

theorem watch_order_witness:
  "\<exists>ms w' d. arrives [[sample_msg], [later_msg]] ms
     \<and> Watch mem_subs [EventTypeZone, EventTypePresence] None (recording (\<lambda>e off. None))
         (map Msg ms @ [Done ContextCanceled]) {} [] = (Returned (Some ContextCanceled), w', (sample_event, ''009'') # d)"
proof -
  have subjects: "watchSubjects [EventTypeZone, EventTypePresence] = [''zonyx.zone.>'', ''zonyx.presence.>'']"
    by (simp add: watchSubjects_def subject_of_type_def)
  have subs: "subscribe_all mem_subs [DeliverLastPerSubject, AckNone]
      (watchSubjects [EventTypeZone, EventTypePresence]) [] {} = (Inr [0, 1], {0, 1})"
    unfolding subjects by (auto simp: mem_subs_def)
  have len: "length [[sample_msg], [later_msg]] = length (watchSubjects [EventTypeZone, EventTypePresence])"
    unfolding subjects by simp
  have some: "watchSubjects [EventTypeZone, EventTypePresence] \<noteq> []" unfolding subjects by simp
  have opts: "watch_opts None = Inr [DeliverLastPerSubject, AckNone]" by (simp add: watch_opts_def)
  have "(1::nat) < length [[sample_msg], [later_msg]]" "[[sample_msg], [later_msg]] ! 1 = later_msg # []" by simp_all
  with watch_order [OF some opts subs len, of ContextCanceled] decode_later show ?thesis by blast
qed

end
