(* ===== verification/Replay.thy ===== *)
theory Replay
  imports WatchOrder StoreProps
begin

text \<open>
  Writing and watching joined: what a subscription delivers of the stream that \<open>Write\<close> has
  filled. The stream and its consumers are NATS, which documents which messages a consumer is
  given: those on subjects that match its pattern, from the start sequence on, or the last
  message of each subject and then the new ones. \<open>consumer_queue\<close> states this.
\<close>

section \<open>Consumers\<close>

text \<open>Subjects are tokens separated by dots; \<open>*\<close> matches one token, a final \<open>>\<close> one or more.\<close>

fun tokens :: "string \<Rightarrow> string list" where
  "tokens [] = [[]]"
| "tokens (c # cs) = (if c = CHR ''.'' then [] # tokens cs else (c # hd (tokens cs)) # tl (tokens cs))"

fun token_match :: "string list \<Rightarrow> string list \<Rightarrow> bool" where
  "token_match [] ts = (ts = [])"
| "token_match (p # ps) [] = False"
| "token_match (p # ps) (t # ts) =
     ((p = ''>'' \<and> ps = []) \<or> ((p = ''*'' \<or> p = t) \<and> token_match ps ts))"

definition subject_match :: "string \<Rightarrow> string \<Rightarrow> bool" where
  "subject_match pat subj = token_match (tokens pat) (tokens subj)"

text \<open>Of the entries with equal keys the last one.\<close>

fun last_by :: "('a \<Rightarrow> 'k) \<Rightarrow> 'a list \<Rightarrow> 'a list" where
  "last_by key [] = []"
| "last_by key (x # xs) = (if key x \<in> key ` set xs then last_by key xs else x # last_by key xs)"

text \<open>The first position a consumer with these options is given.\<close>

fun deliver_from :: "sub_opt list \<Rightarrow> nat" where
  "deliver_from [] = 1"
| "deliver_from (StartSequence s # opts) = unat s"
| "deliver_from (_ # opts) = deliver_from opts"

abbreviation on_pattern :: "string \<Rightarrow> nat \<times> string \<times> 'p \<Rightarrow> bool" where
  "on_pattern pat x \<equiv> subject_match pat (fst (snd x))"

text \<open>
  The numbered messages a consumer is shown before its pattern is applied; \<open>k\<close> is the number
  of messages in the stream when it is created.
\<close>

definition shown :: "sub_opt list \<Rightarrow> nat \<Rightarrow> (string \<times> 'p) list \<Rightarrow> (nat \<times> string \<times> 'p) list" where
  "shown opts k ms =
     (let xs = enumerate 1 ms in
      if DeliverLastPerSubject \<in> set opts then last_by (fst \<circ> snd) (take k xs) @ drop k xs
      else filter (\<lambda>x. deliver_from opts \<le> fst x) xs)"

definition nats_message :: "nat \<times> string \<times> payload \<Rightarrow> nats_msg" where
  "nats_message x = \<lparr>msg_Data = snd (snd x), msg_Metadata = Inr (of_nat (fst x))\<rparr>"

definition consumer_queue :: "sub_opt list \<Rightarrow> nat \<Rightarrow> (string \<times> payload) list \<Rightarrow> string \<Rightarrow> nats_msg list" where
  "consumer_queue opts k ms pat = map nats_message (filter (on_pattern pat) (shown opts k ms))"

section \<open>Facts about lists\<close>

lemma set_last_by: "set (last_by key xs) \<subseteq> set xs"
  by (induction xs) auto

lemma subseq_last_by: "subseq (last_by key xs) xs"
  by (induction xs) auto

lemma last_by_map: "last_by key (map f xs) = map f (last_by (key \<circ> f) xs)"
  by (induction xs) (auto simp: image_comp)

lemma enumerate_map: "enumerate n (map f xs) = map (apsnd f) (enumerate n xs)"
  by (induction xs arbitrary: n) simp_all

lemma mset_filter_disj:
  assumes "\<And>x. x \<in> set xs \<Longrightarrow> \<not> (P x \<and> Q x)"
  shows "mset (map f (filter (\<lambda>x. P x \<or> Q x) xs)) = mset (map f (filter P xs)) + mset (map f (filter Q xs))"
  using assms by (induction xs) auto

lemma mset_concat_filters:
  assumes "distinct ps" and "\<And>p q x. p \<in> set ps \<Longrightarrow> q \<in> set ps \<Longrightarrow> P p x \<Longrightarrow> P q x \<Longrightarrow> p = q"
  shows "mset (concat (map (\<lambda>p. map f (filter (P p) xs)) ps)) = mset (map f (filter (\<lambda>x. \<exists>p \<in> set ps. P p x) xs))"
  using assms
proof (induction ps)
  case (Cons p ps)
  have "mset (map f (filter (\<lambda>x. P p x \<or> (\<exists>q \<in> set ps. P q x)) xs))
      = mset (map f (filter (P p) xs)) + mset (map f (filter (\<lambda>x. \<exists>q \<in> set ps. P q x) xs))"
    by (rule mset_filter_disj) (use Cons.prems in \<open>metis distinct.simps(2) list.set_intros\<close>)
  with Cons show ?case by simp
qed simp

lemma map_filter_numbered:
  "map (\<lambda>x. snd (snd x)) (filter (\<lambda>x. Q (snd x)) xs) = map snd (filter Q (map snd xs))"
  by (induction xs) simp_all

lemma single_mset: "mset xs = mset [x] \<Longrightarrow> xs = [x]"
  by (cases xs) auto

lemma distinct_subseq: "subseq xs ys \<Longrightarrow> distinct ys \<Longrightarrow> distinct xs"
  by (metis subseq_conv_nths distinct_nthsI)

section \<open>The patterns of Watch\<close>

lemma tokens_nonempty [simp]: "tokens s \<noteq> []"
  by (cases s) simp_all

lemma token_match_tail [simp]: "token_match [''>''] ts \<longleftrightarrow> ts \<noteq> []"
  by (cases ts) simp_all

lemma change_patterns [simp]:
  "subject_match ''zonyx.zone.>'' s \<longleftrightarrow> (\<exists>u us. tokens s = ''zonyx'' # ''zone'' # u # us)"
  "subject_match ''zonyx.presence.>'' s \<longleftrightarrow> (\<exists>u us. tokens s = ''zonyx'' # ''presence'' # u # us)"
  "subject_match ''zonyx.command.>'' s \<longleftrightarrow> (\<exists>u us. tokens s = ''zonyx'' # ''command'' # u # us)"
proof -
  have "token_match [a, b, ''>''] ts \<longleftrightarrow> (\<exists>u us. ts = a # b # u # us)"
    if "a \<noteq> ''*''" "b \<noteq> ''*''" for a b and ts :: "string list"
    using that by (cases ts; cases "tl ts"; cases "tl (tl ts)") auto
  then show
    "subject_match ''zonyx.zone.>'' s \<longleftrightarrow> (\<exists>u us. tokens s = ''zonyx'' # ''zone'' # u # us)"
    "subject_match ''zonyx.presence.>'' s \<longleftrightarrow> (\<exists>u us. tokens s = ''zonyx'' # ''presence'' # u # us)"
    "subject_match ''zonyx.command.>'' s \<longleftrightarrow> (\<exists>u us. tokens s = ''zonyx'' # ''command'' # u # us)"
    by (simp_all add: subject_match_def)
qed

lemma tokens_subject [simp]:
  "tokens (rawSubject a) = ''zonyx'' # ''raw'' # tokens a"
  "tokens (zoneSubject a) = ''zonyx'' # ''zone'' # tokens a"
  "tokens (presenceSubject a) = ''zonyx'' # ''presence'' # tokens a"
  "tokens (commandSubject a) = ''zonyx'' # ''command'' # tokens a"
  by (simp_all add: subject_defs)

lemma patterns_disjoint:
  assumes "p \<in> set (watchSubjects types)" and "q \<in> set (watchSubjects types)"
    and "subject_match p s" and "subject_match q s"
  shows "p = q"
proof -
  have "p \<in> {''zonyx.zone.>'', ''zonyx.presence.>'', ''zonyx.command.>''}"
    and "q \<in> {''zonyx.zone.>'', ''zonyx.presence.>'', ''zonyx.command.>''}"
    using assms(1,2) watchSubjects_spec by blast+
  with assms(3,4) show ?thesis by auto
qed

section \<open>The messages of the store\<close>

text \<open>The change messages a subscription with these types is meant to get.\<close>

definition wanted :: "event_type list \<Rightarrow> string \<times> event \<Rightarrow> bool" where
  "wanted types m \<longleftrightarrow> fst m \<noteq> rawSubject (ev_actor (snd m)) \<and> (types = [] \<or> ev_Type (snd m) \<in> set types)"

definition stored_message :: "string \<times> event \<Rightarrow> bool" where
  "stored_message m \<longleftrightarrow> event_wire_ok (snd m)
     \<and> (fst m = rawSubject (ev_actor (snd m))
        \<or> fst m = change_subject (snd m) \<and> (is_zone (snd m) \<or> is_presence (snd m) \<or> is_command (snd m)))"

lemma run_stored_message:
  assumes "list_all event_wire_ok es"
  shows "list_all stored_message (fst (run store_step \<sigma> es))"
  using assms
proof (induction es arbitrary: \<sigma>)
  case (Cons e es)
  then have "list_all stored_message (fst (store_step \<sigma> e))"
    by (auto simp: stored_message_def changes_def)
  with Cons show ?case by (simp add: case_prod_beta del: fst_store_step snd_store_step)
qed simp

lemma types_distinct [simp]:
  "EventTypeZone \<noteq> EventTypePresence" "EventTypeZone \<noteq> EventTypeCommand" "EventTypePresence \<noteq> EventTypeCommand"
  "EventTypePresence \<noteq> EventTypeZone" "EventTypeCommand \<noteq> EventTypeZone" "EventTypeCommand \<noteq> EventTypePresence"
  by (simp_all add: EventTypeZone_def EventTypePresence_def EventTypeCommand_def)

lemma watchSubjects_member:
  "s \<in> set (watchSubjects types) \<longleftrightarrow>
     (if types = [] then s \<in> set allChangeSubjects else \<exists>t \<in> set types. subject_of_type t = Some s)"
  using watch_loop_spec [of "[]" "{}" types] by (auto simp: watchSubjects_def)

lemma subject_of_type_iff [simp]:
  "subject_of_type t = Some ''zonyx.zone.>'' \<longleftrightarrow> t = EventTypeZone"
  "subject_of_type t = Some ''zonyx.presence.>'' \<longleftrightarrow> t = EventTypePresence"
  "subject_of_type t = Some ''zonyx.command.>'' \<longleftrightarrow> t = EventTypeCommand"
  by (auto simp: subject_of_type_def)

lemma watched_pattern [simp]:
  "''zonyx.zone.>'' \<in> set (watchSubjects types) \<longleftrightarrow> types = [] \<or> EventTypeZone \<in> set types"
  "''zonyx.presence.>'' \<in> set (watchSubjects types) \<longleftrightarrow> types = [] \<or> EventTypePresence \<in> set types"
  "''zonyx.command.>'' \<in> set (watchSubjects types) \<longleftrightarrow> types = [] \<or> EventTypeCommand \<in> set types"
  unfolding watchSubjects_member by (simp_all add: allChangeSubjects_def)

lemma patterns_cases:
  "(\<exists>p \<in> set (watchSubjects types). subject_match p s) \<longleftrightarrow>
     (subject_match ''zonyx.zone.>'' s \<and> (types = [] \<or> EventTypeZone \<in> set types)
      \<or> subject_match ''zonyx.presence.>'' s \<and> (types = [] \<or> EventTypePresence \<in> set types)
      \<or> subject_match ''zonyx.command.>'' s \<and> (types = [] \<or> EventTypeCommand \<in> set types))"
proof -
  have "(\<exists>p \<in> W. subject_match p s) \<longleftrightarrow>
      subject_match x s \<and> x \<in> W \<or> subject_match y s \<and> y \<in> W \<or> subject_match z s \<and> z \<in> W"
    if "W \<subseteq> {x, y, z}" for W x y z
    using that by blast
  moreover have "set (watchSubjects types) \<subseteq> {''zonyx.zone.>'', ''zonyx.presence.>'', ''zonyx.command.>''}"
    using watchSubjects_spec by blast
  ultimately show ?thesis by (simp only: watched_pattern)
qed

lemma wanted_patterns:
  assumes "stored_message m"
  shows "(\<exists>p \<in> set (watchSubjects types). subject_match p (fst m)) \<longleftrightarrow> wanted types m"
proof (cases "fst m = rawSubject (ev_actor (snd m))")
  case True
  then show ?thesis by (simp add: patterns_cases wanted_def)
next
  case False
  with assms have "fst m = change_subject (snd m)" and "is_zone (snd m) \<or> is_presence (snd m) \<or> is_command (snd m)"
    by (auto simp: stored_message_def)
  with False types_distinct tokens_nonempty [of "ev_actor (snd m)"] show ?thesis
    unfolding patterns_cases wanted_def
    by (cases "tokens (ev_actor (snd m))") (auto simp: change_subject_def)
qed

section \<open>What a subscription delivers\<close>

text \<open>The delivery of a numbered event.\<close>

definition delivery :: "nat \<times> string \<times> event \<Rightarrow> event \<times> string" where
  "delivery x = (snd (snd x), encodeOffset (of_nat (fst x)))"

lemma shown_map: "shown opts k (map (apsnd f) ms) = map (apsnd (apsnd f)) (shown opts k ms)"
proof -
  have "(fst \<circ> snd) \<circ> apsnd (apsnd f) = fst \<circ> snd" for f :: "'a \<Rightarrow> 'b" by (simp add: fun_eq_iff)
  then show ?thesis
    by (simp add: shown_def Let_def enumerate_map take_map drop_map last_by_map filter_map comp_def)
qed

lemma consumer_queue_messages:
  "consumer_queue opts k (messages ms) pat
     = map (\<lambda>x. nats_message (apsnd (apsnd payload_of) x)) (filter (on_pattern pat) (shown opts k ms))"
proof -
  have "messages ms = map (apsnd payload_of) ms" by (simp add: messages_def apsnd_def map_prod_def case_prod_beta)
  then show ?thesis by (simp add: consumer_queue_def shown_map filter_map comp_def)
qed

lemma decodable_messages:
  assumes "list_all (\<lambda>x. event_wire_ok (snd (snd x))) xs"
  shows "decodable (map (\<lambda>x. nats_message (apsnd (apsnd payload_of) x)) xs) = map delivery xs"
  using assms by (induction xs) (simp_all add: nats_message_def decode_def delivery_def)

lemma set_shown: "set (shown opts k ms) \<subseteq> set (enumerate 1 ms)"
  using set_last_by [of "fst \<circ> snd" "take k (enumerate 1 ms)"]
  by (auto simp: shown_def Let_def dest: in_set_takeD in_set_dropD)

lemma distinct_shown: "distinct (map fst (shown opts k ms))"
proof -
  have "subseq (last_by (fst \<circ> snd) (take k xs) @ drop k xs) xs" for xs :: "(nat \<times> string \<times> 'a) list"
    using list_emb_append_mono [OF subseq_last_by [of "fst \<circ> snd" "take k xs"], of "drop k xs" "drop k xs"] by simp
  then have "subseq (shown opts k ms) (enumerate 1 ms)" by (simp add: shown_def Let_def)
  then have "subseq (map fst (shown opts k ms)) (map fst (enumerate 1 ms))" by (rule subseq_map)
  then show ?thesis by (rule distinct_subseq) simp
qed

lemma unat_uint64: "i < 2 ^ 64 \<Longrightarrow> unat (of_nat i :: uint64) = i"
  by (simp add: unat_of_nat take_bit_nat_eq_self)

lemma offsets_distinct:
  assumes "list_all (\<lambda>x. 0 < fst x \<and> fst x < 2 ^ 64) xs" and "distinct (map fst xs)"
  shows "distinct (map (\<lambda>x. snd (delivery x)) xs)"
proof -
  have "i = j" if "0 < i" "i < 2 ^ 64" "0 < j" "j < 2 ^ 64" "encodeOffset (of_nat i) = encodeOffset (of_nat j)" for i j
  proof -
    have "unat (of_nat i :: uint64) = i" "unat (of_nat j :: uint64) = j"
      using that by (simp_all add: unat_uint64)
    moreover have "(of_nat i :: uint64) = of_nat j"
      using offset_codec.dec_enc [of "of_nat i"] offset_codec.dec_enc [of "of_nat j"] that(1,3,5) calculation
      by (metis sum.inject(2) unat_0 less_irrefl)
    ultimately show ?thesis by metis
  qed
  with assms show ?thesis
    by (auto simp: delivery_def distinct_map inj_on_def list_all_iff)
qed

lemma shown_stored:
  assumes "list_all stored_message ms" and "x \<in> set (shown opts k ms)"
  shows "stored_message (snd x)"
proof -
  from assms(2) set_shown have "x \<in> set (enumerate 1 ms)" by blast
  then have "snd x \<in> set ms" by (metis imageI list.set_map map_snd_enumerate)
  with assms(1) show ?thesis by (simp add: list_all_iff)
qed

lemma decodable_queue:
  assumes "list_all stored_message ms"
  shows "decodable (consumer_queue opts k (messages ms) p) = map delivery (filter (on_pattern p) (shown opts k ms))"
proof -
  have "list_all (\<lambda>x. event_wire_ok (snd (snd x))) (filter (on_pattern p) (shown opts k ms))"
    using shown_stored [OF assms] by (auto simp: list_all_iff stored_message_def)
  then show ?thesis unfolding consumer_queue_messages by (rule decodable_messages)
qed

text \<open>What arrives, decoded: the wanted messages shown.\<close>

lemma decodable_shown:
  assumes "list_all stored_message ms"
    and "arrives (map (consumer_queue opts k (messages ms)) (watchSubjects types)) ns"
  shows "mset (decodable ns) = mset (map delivery (filter (\<lambda>x. wanted types (snd x)) (shown opts k ms)))"
proof -
  let ?xs = "shown opts k ms"
  have "mset (decodable ns) = mset (concat (map (\<lambda>p. map delivery (filter (on_pattern p) ?xs)) (watchSubjects types)))"
    using arrives_decodable(1) [OF assms(2)] by (simp add: comp_def decodable_queue [OF assms(1)])
  also have "\<dots> = mset (map delivery (filter (\<lambda>x. \<exists>p \<in> set (watchSubjects types). on_pattern p x) ?xs))"
    by (rule mset_concat_filters [OF watchSubjects_spec [THEN conjunct1]]) (rule patterns_disjoint)
  also have "filter (\<lambda>x. \<exists>p \<in> set (watchSubjects types). on_pattern p x) ?xs = filter (\<lambda>x. wanted types (snd x)) ?xs"
    by (rule filter_cong [OF refl]) (use shown_stored [OF assms(1)] wanted_patterns in blast)
  finally show ?thesis .
qed

lemma offsets_shown:
  assumes "length ms < 2 ^ 64"
  shows "distinct (map snd (map delivery (filter P (shown opts k ms))))"
proof -
  have "distinct (map (\<lambda>x. snd (delivery x)) (filter P (shown opts k ms)))"
  proof (rule offsets_distinct)
    show "list_all (\<lambda>x. 0 < fst x \<and> fst x < 2 ^ 64) (filter P (shown opts k ms))"
      using set_shown [of opts k ms] assms by (fastforce simp: list_all_iff in_set_enumerate_eq)
    show "distinct (map fst (filter P (shown opts k ms)))"
      by (rule distinct_map_filter) (rule distinct_shown)
  qed
  then show ?thesis by (simp add: comp_def)
qed

lemma watch_shown:
  assumes "watchSubjects types \<noteq> []" and "watch_opts offset = Inr opts"
    and "subscribe_all S opts (watchSubjects types) [] w = (Inr subs, w1)"
    and "list_all stored_message ms" and "length ms < 2 ^ 64"
    and "arrives (map (consumer_queue opts k (messages ms)) (watchSubjects types)) ns"
  shows "\<exists>w' d. Watch S types offset (recording (\<lambda>e off. None)) (map Msg ns @ [Done err]) w [] = (Returned (Some err), w', d)
      \<and> mset (map fst d) = mset (map snd (filter (wanted types) (map snd (shown opts k ms))))
      \<and> distinct (map snd d)
      \<and> (\<forall>p \<in> set (watchSubjects types).
           subseq (map snd (filter (\<lambda>m. subject_match p (fst m)) (map snd (shown opts k ms)))) (map fst d))"
proof -
  let ?qs = "map (consumer_queue opts k (messages ms)) (watchSubjects types)" and ?xs = "shown opts k ms"
  note mset = decodable_shown [OF assms(4,6)]
  have dist: "distinct (map snd (decodable ns))"
    using offsets_shown [OF assms(5)] mset by (metis mset_map mset_eq_imp_distinct_iff)
  have fst_delivery: "map fst (map delivery ys) = map (\<lambda>x. snd (snd x)) ys" for ys by (simp add: delivery_def)
  from arg_cong [OF mset, of "image_mset fst"]
  have events: "mset (map fst (decodable ns)) = mset (map snd (filter (wanted types) (map snd ?xs)))"
    unfolding mset_map [symmetric] fst_delivery map_filter_numbered .
  have order: "subseq (map delivery (filter (on_pattern p) ?xs)) (decodable ns)" if p: "p \<in> set (watchSubjects types)" for p
  proof -
    from p obtain i where "i < length ?qs" "?qs ! i = consumer_queue opts k (messages ms) p"
      by (metis in_set_conv_nth length_map nth_map)
    with arrives_decodable(2) [OF assms(6)] decodable_queue [OF assms(4)] show ?thesis by metis
  qed
  have "subseq (map snd (filter (\<lambda>m. subject_match p (fst m)) (map snd ?xs))) (map fst (decodable ns))"
    if "p \<in> set (watchSubjects types)" for p
    using subseq_map [OF order [OF that], of fst]
    unfolding fst_delivery map_filter_numbered [where Q = "\<lambda>m. subject_match p (fst m)"] .
  with watch_collects [OF assms(1-3), of ns err] events dist show ?thesis by metis
qed

section \<open>From the writes to the deliveries\<close>

text \<open>The messages that the events \<open>es\<close> add, in the order of the stream, after the events \<open>before\<close>.\<close>

definition added :: "event list \<Rightarrow> event list \<Rightarrow> (string \<times> event) list" where
  "added before es = fst (run store_step (snd (run store_step (\<lambda>_. zero_actorState) before)) es)"

lemma added_append: "added before (es @ fs) = added before es @ added (before @ es) fs"
  by (simp add: added_def run_append Let_def case_prod_beta)

lemma stream_added:
  assumes "reliable N log kv A" and "starts_empty log kv r" and "events_ok A es"
  shows "log (world (snd (run (write_step N) r es))) = messages (added [] es)"
    and "list_all stored_message (added before es)"
proof -
  have "store_state_of kv r = (\<lambda>_. zero_actorState)"
    by (rule ext) (rule starts_empty_state [OF assms(2)])
  moreover have "log (world r) = []" using assms(2) by (simp add: starts_empty_def)
  ultimately show "log (world (snd (run (write_step N) r es))) = messages (added [] es)"
    using writes_store(1) [OF assms(1,3) starts_empty_coherent [OF assms(2)]] by (simp add: added_def)
  have "list_all event_wire_ok es" using assms(3) by (simp add: events_ok_def list_all_iff)
  then show "list_all stored_message (added before es)" unfolding added_def by (rule run_stored_message)
qed

text \<open>From a start sequence on everything, else the last message of each subject and the new ones.\<close>

lemma shown_since:
  assumes "deliver_from opts = Suc (length ms)" and "DeliverLastPerSubject \<notin> set opts"
  shows "map snd (shown opts k (ms @ ns)) = ns"
proof -
  have "filter (\<lambda>x. Suc (length ms) \<le> fst x) (enumerate 1 ms) = []"
    by (auto simp: filter_empty_conv in_set_enumerate_eq)
  moreover have "filter (\<lambda>x. Suc (length ms) \<le> fst x) (enumerate (Suc (length ms)) ns) = enumerate (Suc (length ms)) ns"
    by (auto simp: filter_id_conv in_set_enumerate_eq)
  ultimately show ?thesis using assms by (simp add: shown_def Let_def enumerate_append_eq)
qed

lemma shown_snapshot:
  assumes "DeliverLastPerSubject \<in> set opts"
  shows "map snd (shown opts (length ms) (ms @ ns)) = last_by fst ms @ ns"
proof -
  have "map snd (last_by (fst \<circ> snd) (enumerate n ms)) = last_by fst ms" for n
    using last_by_map [of fst snd "enumerate n ms"] by simp
  with assms show ?thesis by (simp add: shown_def Let_def enumerate_append_eq)
qed

section \<open>Properties\<close>

text \<open>
  C16: resuming loses nothing: a subscription that starts from the offset which \<open>Write\<close> returned
  for an event delivers every change message of that event and of all later writes whose
  type it asks for, each exactly once and at an offset of its own, those of one type in the
  order written, whenever the subscriptions are made and however their queues interleave.
\<close>

theorem resume_delivers:
  assumes "reliable N log kv A" and "starts_empty log kv r" and "events_ok A (es0 @ e # es1)"
    and "Write N e (snd (run (write_step N) r es0)) = (Inr off, r1)"
    and "stream = log (world (snd (run (write_step N) r1 es1)))" and "length stream < 2 ^ 64"
    and "watchSubjects types \<noteq> []" and "watch_opts (Some off) = Inr opts"
    and "subscribe_all S opts (watchSubjects types) [] w = (Inr subs, w1)"
    and "arrives (map (consumer_queue opts k stream) (watchSubjects types)) ns"
  shows "\<exists>w' d. Watch S types (Some off) (recording (\<lambda>e off. None)) (map Msg ns @ [Done err]) w [] = (Returned (Some err), w', d)
      \<and> mset (map fst d) = mset (map snd (filter (wanted types) (added es0 (e # es1))))
      \<and> distinct (map snd d)
      \<and> (\<forall>p \<in> set (watchSubjects types).
           subseq (map snd (filter (\<lambda>m. subject_match p (fst m)) (added es0 (e # es1)))) (map fst d))"
proof -
  have ok: "events_ok A es0" "ev_actor e \<in> A" "event_wire_ok e" using assms(3) by (simp_all add: events_ok_def)
  note before = stream_added(1) [OF assms(1,2) ok(1)]
  note coh = writes_store(3) [OF assms(1) ok(1) starts_empty_coherent [OF assms(2)]]
  have "snd (run (write_step N) r (es0 @ e # es1)) = snd (run (write_step N) r1 es1)"
    using assms(4) by (simp add: run_append Let_def case_prod_beta write_step_def)
  with stream_added(1) [OF assms(1-3)] assms(5) have stream: "stream = messages (added [] es0 @ added es0 (e # es1))"
    by (simp only: added_append append_Nil)
  from Write_store [OF assms(1) ok(2,3) coh] assms(4) before
  have off: "off = encodeOffset (of_nat (Suc (length (added [] es0))))"
    by (metis Inr_inject Pair_inject length_map messages_def)
  have "added es0 (e # es1) \<noteq> []" by (simp add: added_def Let_def case_prod_beta store_step_def)
  with stream assms(6) have len: "Suc (length (added [] es0)) < 2 ^ 64"
    by (cases "added es0 (e # es1)") (simp_all add: messages_def)
  then have seq: "unat (of_nat (Suc (length (added [] es0))) :: uint64) = Suc (length (added [] es0))"
    by (rule unat_uint64)
  then have "(of_nat (Suc (length (added [] es0))) :: uint64) \<noteq> 0" by (metis unat_0 nat.distinct(1))
  with assms(8) off have opts: "opts = [StartSequence (of_nat (Suc (length (added [] es0)))), AckNone]"
    by (simp add: watch_opts_def)
  have xs: "map snd (shown opts k (added [] es0 @ added es0 (e # es1))) = added es0 (e # es1)"
    by (rule shown_since) (simp_all add: opts seq del: of_nat_Suc)
  have msgs: "list_all stored_message (added [] es0 @ added es0 (e # es1))"
    using stream_added(2) [OF assms(1-3), of "[]"] by (simp add: added_append)
  have "length (added [] es0 @ added es0 (e # es1)) < 2 ^ 64" using assms(6) stream by (simp add: messages_def)
  from watch_shown [OF assms(7-9) msgs this assms(10) [unfolded stream], of err] show ?thesis unfolding xs .
qed

text \<open>One event written to an empty stream, and one subscription for zone events.\<close>

lemma sample_added:
  "added [] [sample_event] = [(rawSubject ''tag'', sample_event), (zoneSubject ''tag'', sample_event)]"
  by (simp add: added_def store_step_def changes_def change_subject_def zone_unchanged_def zero_actorState_def)

lemma mem_subscribe_zone: "subscribe_all mem_subs opts (watchSubjects [EventTypeZone]) [] {} = (Inr [0], {0})"
  by (simp add: watchSubjects_def subject_of_type_def mem_subs_def)

lemma mem_unsubscribe: "unsubscribe_all mem_subs [0] {0} = {}"
  by (simp add: unsubscribe_all_def mem_subs_def)

theorem resume_delivers_witness:
  "\<exists>off r1 ns w' d. Write mem_nats sample_event fresh = (Inr off, r1)
     \<and> Watch mem_subs [EventTypeZone] (Some off) (recording (\<lambda>e off. None)) (map Msg ns @ [Done ContextCanceled]) {} []
       = (Returned (Some ContextCanceled), w', d)
     \<and> map fst d = [sample_event]"
proof -
  have ok: "events_ok {''tag''} ([] @ [sample_event])" by (simp add: events_ok_def)
  have empty_log: "fst (world fresh) = []" by (simp add: fresh_def)
  obtain off r1 where wr: "Write mem_nats sample_event fresh = (Inr off, r1)" and off: "off = encodeOffset 1"
    by (rule Write_store [of mem_nats fst snd "{''tag''}" sample_event fresh]) (simp_all add: empty_log)
  then have wr': "Write mem_nats sample_event (snd (run (write_step mem_nats) fresh [])) = (Inr off, r1)" by simp
  let ?ms = "fst (world (snd (run (write_step mem_nats) r1 [])))"
  have "?ms = fst (world (snd (run (write_step mem_nats) fresh ([] @ [sample_event]))))"
    using wr by (simp add: write_step_def)
  with stream_added(1) [OF mem_nats_reliable starts_empty_fresh ok] have len: "length ?ms < 2 ^ 64"
    by (simp add: sample_added messages_def)
  have opts: "watch_opts (Some off) = Inr [StartSequence 1, AckNone]" by (simp add: watch_opts_def off)
  obtain ns where ns: "arrives (map (consumer_queue [StartSequence 1, AckNone] 0 ?ms) (watchSubjects [EventTypeZone])) ns"
    using arrives_exists by blast
  have some: "watchSubjects [EventTypeZone] \<noteq> []" by (simp add: watchSubjects_def subject_of_type_def)
  from resume_delivers [OF mem_nats_reliable starts_empty_fresh ok wr' refl len some opts mem_subscribe_zone ns, of ContextCanceled]
  obtain w' d where
    "Watch mem_subs [EventTypeZone] (Some off) (recording (\<lambda>e off. None)) (map Msg ns @ [Done ContextCanceled]) {} []
       = (Returned (Some ContextCanceled), w', d)"
    "mset (map fst d) = mset (map snd (filter (wanted [EventTypeZone]) (added [] [sample_event])))" by blast
  moreover have "map snd (filter (wanted [EventTypeZone]) (added [] [sample_event])) = [sample_event]"
    by (simp add: sample_added wanted_def)
  ultimately show ?thesis using wr by (metis single_mset)
qed

text \<open>
  C17: a new subscriber gets a complete picture and then every change: without an offset, a
  subscription made after the events \<open>es0\<close> delivers, of the types it asks for, the last change
  message of every actor and type and every change message of the later writes, each exactly
  once and at an offset of its own, those of one type in the order written.
\<close>

theorem snapshot_then_live:
  assumes "reliable N log kv A" and "starts_empty log kv r" and "events_ok A (es0 @ es1)"
    and "ms0 = log (world (snd (run (write_step N) r es0)))"
    and "stream = log (world (snd (run (write_step N) r (es0 @ es1))))" and "length stream < 2 ^ 64"
    and "watchSubjects types \<noteq> []" and "watch_opts None = Inr opts"
    and "subscribe_all S opts (watchSubjects types) [] w = (Inr subs, w1)"
    and "arrives (map (consumer_queue opts (length ms0) stream) (watchSubjects types)) ns"
  shows "\<exists>w' d. Watch S types None (recording (\<lambda>e off. None)) (map Msg ns @ [Done err]) w [] = (Returned (Some err), w', d)
      \<and> mset (map fst d) = mset (map snd (filter (wanted types) (last_by fst (added [] es0) @ added es0 es1)))
      \<and> distinct (map snd d)
      \<and> (\<forall>p \<in> set (watchSubjects types).
           subseq (map snd (filter (\<lambda>m. subject_match p (fst m)) (last_by fst (added [] es0) @ added es0 es1))) (map fst d))"
proof -
  have ok: "events_ok A es0" using assms(3) by (simp add: events_ok_def)
  have ms0: "length ms0 = length (added [] es0)"
    using stream_added(1) [OF assms(1,2) ok] assms(4) by (simp add: messages_def)
  have stream: "stream = messages (added [] es0 @ added es0 es1)"
    using stream_added(1) [OF assms(1-3)] assms(5) by (simp only: added_append append_Nil)
  have msgs: "list_all stored_message (added [] es0 @ added es0 es1)"
    using stream_added(2) [OF assms(1-3), of "[]"] by (simp add: added_append)
  have opts: "DeliverLastPerSubject \<in> set opts" using assms(8) by (auto simp: watch_opts_def)
  have "length (added [] es0 @ added es0 es1) < 2 ^ 64" using assms(6) stream by (simp add: messages_def)
  from watch_shown [OF assms(7-9) msgs this assms(10) [unfolded stream ms0], of err]
  show ?thesis unfolding shown_snapshot [OF opts] .
qed

theorem snapshot_then_live_witness:
  "\<exists>ns w' d.
     Watch mem_subs [EventTypeZone] None (recording (\<lambda>e off. None)) (map Msg ns @ [Done ContextCanceled]) {} []
       = (Returned (Some ContextCanceled), w', d) \<and> map fst d = [sample_event]"
proof -
  let ?ms = "fst (world (snd (run (write_step mem_nats) fresh [sample_event])))"
  have ok: "events_ok {''tag''} ([sample_event] @ [])" by (simp add: events_ok_def)
  have len: "length ?ms < 2 ^ 64"
    using stream_added(1) [OF mem_nats_reliable starts_empty_fresh ok] by (simp add: sample_added messages_def)
  obtain ns where ns: "arrives (map (consumer_queue [DeliverLastPerSubject, AckNone] (length ?ms) ?ms)
      (watchSubjects [EventTypeZone])) ns"
    using arrives_exists by blast
  have opts: "watch_opts None = Inr [DeliverLastPerSubject, AckNone]" by (simp add: watch_opts_def)
  have some: "watchSubjects [EventTypeZone] \<noteq> []" by (simp add: watchSubjects_def subject_of_type_def)
  from snapshot_then_live [OF mem_nats_reliable starts_empty_fresh ok refl refl _ some opts mem_subscribe_zone,
      unfolded append_Nil2, OF len ns, of ContextCanceled]
  obtain w' d where
    "Watch mem_subs [EventTypeZone] None (recording (\<lambda>e off. None)) (map Msg ns @ [Done ContextCanceled]) {} []
       = (Returned (Some ContextCanceled), w', d)"
    "mset (map fst d) = mset (map snd (filter (wanted [EventTypeZone]) (last_by fst (added [] [sample_event]) @ added [sample_event] [])))"
    unfolding append_Nil2 by blast
  moreover have "map snd (filter (wanted [EventTypeZone]) (last_by fst (added [] [sample_event]) @ added [sample_event] []))
      = [sample_event]"
    by (simp add: sample_added wanted_def added_def [of "[sample_event]" "[]"])
  ultimately show ?thesis by (metis single_mset)
qed

text \<open>
  C38: what a client gets that reconnects with the offset of an event it has received. The first
  subscription may have started anywhere and may have been cut off anywhere. The second
  delivers, of the types asked for, every message from the position of that event on, each
  exactly once, so the event itself a second time, and no message from before that
  position. What the first subscription had still to deliver from before it, because the
  queue of its type was behind, the client does not get this way.
\<close>

theorem resume_from_delivery:
  assumes "reliable N log kv A" and "starts_empty log kv r" and "events_ok A (es0 @ es1)"
    and "ms0 = log (world (snd (run (write_step N) r es0)))"
    and "stream = log (world (snd (run (write_step N) r (es0 @ es1))))" and "length stream < 2 ^ 64"
    and "watchSubjects types \<noteq> []"
    and "watch_opts offset0 = Inr opts0" and "subscribe_all S opts0 (watchSubjects types) [] w0 = (Inr subs0, w1)"
    and "arrives (map (consumer_queue opts0 k0 ms0) (watchSubjects types)) (ns0 @ missed)"
    and "Watch S types offset0 (recording (\<lambda>e off. None)) (map Msg ns0 @ [Done err0]) w0 [] = (Returned (Some err0), w2, d0)"
    and "(x, off) \<in> set d0"
    and "watch_opts (Some off) = Inr opts" and "subscribe_all S opts (watchSubjects types) [] w2 = (Inr subs, w3)"
    and "arrives (map (consumer_queue opts k stream) (watchSubjects types)) ns"
  shows "\<exists>i subj w' d. (i, subj, x) \<in> set (enumerate 1 (added [] (es0 @ es1))) \<and> off = encodeOffset (of_nat i)
    \<and> Watch S types (Some off) (recording (\<lambda>e off. None)) (map Msg ns @ [Done err]) w2 [] = (Returned (Some err), w', d)
    \<and> mset d = mset (map delivery (filter (\<lambda>y. i \<le> fst y \<and> wanted types (snd y)) (enumerate 1 (added [] (es0 @ es1)))))
    \<and> (x, off) \<in> set d \<and> distinct (map snd d)"
proof -
  let ?all = "added [] (es0 @ es1)"
  have ok0: "events_ok A es0" using assms(3) by (simp add: events_ok_def)
  have ms0: "ms0 = messages (added [] es0)" using stream_added(1) [OF assms(1,2) ok0] assms(4) by simp
  have stream: "stream = messages ?all" using stream_added(1) [OF assms(1-3)] assms(5) by simp
  have st0: "list_all stored_message (added [] es0)" and st: "list_all stored_message ?all"
    using stream_added(2) [OF assms(1,2)] ok0 assms(3) by blast+
  have len: "length ?all < 2 ^ 64" using assms(6) stream by (simp add: messages_def)
  from watch_collects [OF assms(7-9), of ns0 err0] assms(11) have "d0 = decodable ns0" by auto
  with assms(12) have "(x, off) \<in> set (decodable (ns0 @ missed))" by (simp add: decodable_append)
  with decodable_shown [OF st0 assms(10) [unfolded ms0]] have
    "(x, off) \<in> set (map delivery (filter (\<lambda>x. wanted types (snd x)) (shown opts0 k0 (added [] es0))))"
    by (metis set_mset_mset)
  then obtain i subj where i: "(i, subj, x) \<in> set (enumerate 1 (added [] es0))" and want: "wanted types (subj, x)"
    and off: "off = encodeOffset (of_nat i)"
    using set_shown [of opts0 k0 "added [] es0"] by (auto simp: delivery_def)
  have here: "(i, subj, x) \<in> set (enumerate 1 ?all)"
    using i by (simp add: added_append enumerate_append_eq)
  then have pos: "0 < i" "i < 2 ^ 64" using len by (simp_all add: in_set_enumerate_eq)
  then have seq: "unat (of_nat i :: uint64) = i" by (intro unat_uint64)
  with pos have "(of_nat i :: uint64) \<noteq> 0" by (metis unat_0 less_irrefl)
  with assms(13) off have opts: "opts = [StartSequence (of_nat i), AckNone]" by (simp add: watch_opts_def)
  then have xs: "shown opts k ?all = filter (\<lambda>y. i \<le> fst y) (enumerate 1 ?all)"
    using seq by (simp add: shown_def Let_def)
  have mset: "mset (decodable ns) = mset (map delivery (filter (\<lambda>y. i \<le> fst y \<and> wanted types (snd y)) (enumerate 1 ?all)))"
    using decodable_shown [OF st assms(15) [unfolded stream]] by (simp add: xs conj_commute)
  have dist: "distinct (map snd (decodable ns))"
    using offsets_shown [OF len, of "\<lambda>x. wanted types (snd x)" opts k]
      decodable_shown [OF st assms(15) [unfolded stream]]
    by (metis mset_map mset_eq_imp_distinct_iff)
  have "(i, subj, x) \<in> set (filter (\<lambda>y. i \<le> fst y \<and> wanted types (snd y)) (enumerate 1 ?all))"
    using here want by simp
  then have "delivery (i, subj, x) \<in> delivery ` set (filter (\<lambda>y. i \<le> fst y \<and> wanted types (snd y)) (enumerate 1 ?all))"
    by (rule imageI)
  then have "delivery (i, subj, x) \<in> set (decodable ns)"
    unfolding mset_eq_setD [OF mset] set_map .
  then have mem: "(x, off) \<in> set (decodable ns)" by (simp only: delivery_def off fst_conv snd_conv)
  obtain w' where "Watch S types (Some off) (recording (\<lambda>e off. None)) (map Msg ns @ [Done err]) w2 []
      = (Returned (Some err), w', decodable ns)"
    using watch_collects [OF assms(7,13,14), of ns err] by (rule exE)
  with here off mset mem dist show ?thesis by (intro exI conjI) assumption+
qed

theorem resume_from_delivery_witness:
  "\<exists>ns0 d0 off ns w' d.
     Watch mem_subs [EventTypeZone] None (recording (\<lambda>e off. None)) (map Msg ns0 @ [Done ContextCanceled]) {} []
       = (Returned (Some ContextCanceled), {}, d0) \<and> (sample_event, off) \<in> set d0
     \<and> Watch mem_subs [EventTypeZone] (Some off) (recording (\<lambda>e off. None)) (map Msg ns @ [Done ContextCanceled]) {} []
       = (Returned (Some ContextCanceled), w', d) \<and> map fst d = [sample_event]"
proof -
  let ?zone = "[EventTypeZone]" and ?all = "added [] [sample_event]"
  let ?ms = "fst (world (snd (run (write_step mem_nats) fresh [sample_event])))"
  have ok: "events_ok {''tag''} ([sample_event] @ [])" by (simp add: events_ok_def)
  have ms: "?ms = messages ?all"
    using stream_added(1) [OF mem_nats_reliable starts_empty_fresh ok] by simp
  have stored: "list_all stored_message ?all"
    using stream_added(2) [OF mem_nats_reliable starts_empty_fresh ok, of "[]"] by simp
  have len: "length ?ms < 2 ^ 64" unfolding ms by (simp add: sample_added messages_def)
  have some: "watchSubjects ?zone \<noteq> []" by (simp add: watchSubjects_def subject_of_type_def)
  have opts0: "watch_opts None = Inr [DeliverLastPerSubject, AckNone]" by (simp add: watch_opts_def)
  obtain ns0 where ns0: "arrives (map (consumer_queue [DeliverLastPerSubject, AckNone] (length ?ms) ?ms) (watchSubjects ?zone)) ns0"
    using arrives_exists by blast
  have d0: "mset (decodable ns0) = {#(sample_event, encodeOffset 2)#}"
    unfolding decodable_shown [OF stored ns0 [unfolded ms]]
    by (simp add: sample_added messages_def shown_def Let_def enumerate_eq_zip wanted_def delivery_def)
  then have first: "(sample_event, encodeOffset 2) \<in> set (decodable ns0)" by (metis set_mset_mset set_mset_single singletonI)
  have cut: "Watch mem_subs ?zone None (recording (\<lambda>e off. None)) (map Msg ns0 @ [Done ContextCanceled]) {} []
      = (Returned (Some ContextCanceled), {}, decodable ns0)"
    using watch_collects [OF some opts0 mem_subscribe_zone, of ns0 ContextCanceled] some
    by (auto simp: Watch_def Let_def opts0 mem_subscribe_zone mem_unsubscribe split: prod.splits outcome.splits)
  have opts: "watch_opts (Some (encodeOffset 2)) = Inr [StartSequence 2, AckNone]" by (simp add: watch_opts_def)
  obtain ns where ns: "arrives (map (consumer_queue [StartSequence 2, AckNone] (length ?ms) ?ms) (watchSubjects ?zone)) ns"
    using arrives_exists by blast
  from resume_from_delivery [OF mem_nats_reliable starts_empty_fresh ok refl refl _ some opts0 mem_subscribe_zone _ cut first
      opts mem_subscribe_zone, unfolded append_Nil2, where missed = "[]", unfolded append_Nil2, OF len ns0 ns, of ContextCanceled]
  obtain i subj w' d where "(i, subj, sample_event) \<in> set (enumerate 1 ?all)"
    and here: "Watch mem_subs ?zone (Some (encodeOffset 2)) (recording (\<lambda>e off. None)) (map Msg ns @ [Done ContextCanceled]) {} []
      = (Returned (Some ContextCanceled), w', d)"
    and d: "mset d = mset (map delivery (filter (\<lambda>y. i \<le> fst y \<and> wanted ?zone (snd y)) (enumerate 1 ?all)))"
    by (elim exE conjE) (rule that)
  then have "i \<le> 2" by (auto simp: sample_added in_set_enumerate_eq)
  with d have "mset d = {#(sample_event, encodeOffset 2)#}" by (simp add: sample_added enumerate_eq_zip wanted_def delivery_def)
  then have "d = [(sample_event, encodeOffset 2)]" by (simp only: mset_single_iff)
  with cut first here show ?thesis by (intro exI conjI) (assumption | simp)+
qed

end
