(* ===== verification/Spec2Isabelle.thy ===== *)
theory Spec2Isabelle
  imports SimulatorProps Main_Program ConcurrentWrites EventTypes Replay
begin

text \<open>
  Zonyx core tracks tags in an environment. This library models its Go code and proves what
  makes it correct. File and function names below are those of the repository.

  The program and its model.
  \<^item> A positioning engine sends datagrams over UDP. \<open>internal/adapters/quuppa\<close> parses each
    (\<open>parseDatagram\<close>, theory \<open>Parser\<close>), keeps a \<open>tagState\<close> per tag and derives events from the
    previous state and the new message (\<open>deriveEvents\<close>, \<open>runWatchdog\<close>, theory \<open>Derive\<close>). The read
    loop of \<open>Adapter.Run\<close> is the step function \<open>loop_read\<close> (\<open>Adapter\<close>); the loop together with
    its bounded channel and its emit goroutine is the step relation \<open>run_step\<close> (\<open>AdapterRun\<close>),
    in which the two goroutines interleave freely; \<open>AdapterSetup\<close> adds \<open>New\<close>, what \<open>Run\<close> does
    before the loop, and runs whose context is cancelled.
  \<^item> The provider hands every event to the service. \<open>internal/core/services/service.go\<close> and
    the ports are theory \<open>Service\<close>: \<open>NewService\<close>, \<open>Start\<close>, \<open>handleEvent\<close>, \<open>Publish\<close>,
    \<open>Subscribe\<close>, \<open>ReadConfiguration\<close>.
  \<^item> The service writes it to the repository, \<open>internal/repositories/jetstream\<close>. \<open>Write\<close> publishes
    the raw event, and a change event when the actor's zones or presence changed; the last
    change of each actor is in a cache backed by a KV bucket (\<open>Repository\<close>). Subjects and
    offsets are theory \<open>Codec\<close>, the wire format \<open>Wire\<close> over the JSON trees of \<open>Json\<close>. \<open>Watch\<close>
    delivers change events to a subscriber (\<open>Watch\<close>); \<open>WatchOrder\<close> says in which orders NATS can
    hand the messages over and \<open>Replay\<close> which messages a consumer is given (\<open>consumer_queue\<close>). In \<open>Repository\<close> a call of \<open>Write\<close> is one step; \<open>ConcurrentWrites\<close> cuts it
    into its accesses to shared state (\<open>advance\<close>) and interleaves calls (\<open>conc_step\<close>).
  \<^item> \<open>internal/adapters/grpc\<close> serves clients: conversions to wire messages, the RPC handlers and
    the interceptors around them (\<open>Grpc\<close>); health check, \<open>NewServer\<close> with its interceptor chain,
    \<open>Start\<close> and \<open>Stop\<close> (\<open>Server\<close>).
  \<^item> \<open>cmd/main.go\<close> reads the configuration with \<open>internal/helpers\<close> (\<open>Helpers\<close>), builds the
    components (\<open>main_init\<close>) and runs three goroutines up to the exit status: the step relation
    \<open>main_step\<close>, whose labels are the signal, the ends of the provider, of the server and of RPCs
    and the teardown (\<open>Main_Program\<close>). The signal, the provider and the RPCs are not main's to
    decide (\<open>from_outside\<close>); the other steps are the program's own.
  \<^item> \<open>cmd/quuppa-simulator\<close> sends datagrams and checks the events that come back (\<open>Simulator\<close>,
    \<open>Scenario\<close>); \<open>SimulatorRuns\<close> holds its subscriber, the senders and validators of the four
    scenarios and \<open>main\<close>.
  \<^item> The types all of them share are in \<open>Domain\<close>; \<open>GoTime\<close> and \<open>GoNum\<close> hold the parts of Go's
    \<open>time\<close> and \<open>strconv\<close> they use, \<open>Prelude\<close> errors, maps and generic lemmas.

  How the code is read. A struct is a record with its fields in order, a Go integer whose width
  matters is a word, \<open>float64\<close> its bit pattern, an error a value of \<open>go_error\<close> in a sum or
  option. State that the code mutates is passed and returned. Loops are structural recursion
  and no fuel is needed; \<open>trim_front\<close> of the simulator counts down the length of its string,
  which bounds the forms that can be removed. What a goroutine receives from outside (packets, deadlines, messages,
  requests, the order in which Go iterates over a map) is a list of inputs, and a loop whose
  input ends is still waiting (\<open>Blocked\<close>), so a theorem that a loop returns says which input
  makes it. Code outside the repository is a parameter: the datagram decoder, the calls to
  NATS (records \<open>nats\<close> and \<open>nats_subs\<close> on a world of any type), \<open>errgroup\<close>, the validator,
  timestamps of the wire messages, and for \<open>main\<close> the record \<open>libraries\<close> (when \<open>Serve\<close>, \<open>GracefulStop\<close>
  and \<open>Wait\<close> return). What the program relies on is named: \<open>reliable\<close> (a stream
  that appends, a bucket that is a map), \<open>bucket_apart\<close> (publishing leaves the bucket
  alone, a lookup reads what it holds), \<open>tracks_subs\<close>, \<open>errgroup_wait\<close>, \<open>documented\<close> (when the calls that
  \<open>main\<close> waits for return); each is satisfied by a concrete instance in the witnesses.

  What is shown.
  \<^item> \<open>TagEvents\<close>: the transition table, numbering and identifiers of derived events. \<open>EventTypes\<close>:
    every derived event is well typed.
  \<^item> \<open>TagView\<close>: after any run of reads the last presence and zone events of a tag agree with
    its datagrams, an invariant carried by the locale \<open>io_machine\<close> of theory \<open>Machine\<close>; what a
    watchdog sweep does, to all tags and to the tag a datagram has just named, and that it is
    starved by other traffic.
  \<^item> \<open>AdapterRun\<close>: no interleaving loses, repeats or reorders an event except by a counted drop
    or refusal; the loop is never blocked; a run that has to end can always end.
    \<open>AdapterSetup\<close>: once its context is cancelled a run ends after boundedly many steps, whatever
    the order. \<open>Main_Program\<close>: the exit status, that the teardown ends after boundedly many steps
    and by itself once the provider has returned and no RPC is open (\<open>alone\<close>), that a subscriber
    holds it up, and which address is served. Both are interpretations of the
    locale \<open>terminating\<close> of theory \<open>Machine\<close>: a measure that each step decreases and progress up to
    the final states; the measures are \<open>run_work\<close> and \<open>main_work\<close>.
  \<^item> \<open>ChangeLog\<close>: \<open>store_step\<close> is the specification of the write path and \<open>Write\<close> implements it,
    whatever is cached; the two change detectors are interpretations of the locale
    \<open>change_detector\<close>. \<open>StoreProps\<close>: the stream keeps the whole history, its change subjects
    carry changes only and their last messages are current, a restart changes nothing; and,
    on any NATS, what success and failure of \<open>Write\<close> mean. \<open>ConcurrentWrites\<close>: concurrent calls for
    different actors do what they do alone; calls for one actor can lose an update.
  \<^item> \<open>Wire\<close>, \<open>Codec\<close>: encoders and decoders as interpretations of the locale \<open>codec\<close>.
  \<^item> \<open>Watch\<close>, \<open>Grpc\<close>, \<open>Service\<close>: what is delivered, that subscriptions are released, how errors
    and cancellations travel. \<open>WatchOrder\<close>: the order of deliveries within a subject and between
    subjects. \<open>Replay\<close>: nothing written is lost to a client that resumes from an offset, and a new
    one gets the last change of every actor and then all changes; what a client misses that
    resumes from a delivery. \<open>Pipeline\<close> and this theory: from datagrams to subscribers. \<open>SimulatorProps\<close> and this
    theory: the simulator's validations pass on the model of the system.

  Bounds kept from the code: channels of 1024 events (adapter) and 512 (simulator), a silence of
  12 seconds, offsets of
  64 bits, \<open>int64\<close> milliseconds and nanoseconds, years 0 to 9999 on the wire.

  Not modelled: sockets, logging, retention of messages (7 days), the text of JSON and of
  third-party errors, reconnects of the NATS client, generated mocks, tests and deployment
  files; \<open>elapsed.go\<close> and \<open>pointers.go\<close> of the helpers, which nothing calls. The passing of time
  is an input: tickers, sleeps and deadlines fire when the input says so.

  Simplifications that no property rests on. \<open>event_type\<close> and \<open>presence_type\<close> are unbounded integers,
  in the domain types and on the wire, where Go has 64 bits; the code writes the values 0 to 3.
  A nil and an empty slice are one list. In \<open>Replay\<close> the subscriptions of one call of \<open>Watch\<close> are
  created at one length of the stream, where the code creates one after the other; with an
  offset the length does not matter, without one it is the line between snapshot and new
  messages. \<open>drain_called\<close> records that the teardown has called \<open>nc.Drain\<close>, whose error \<open>main\<close> drops
  and which goes on after it has returned.
\<close>

section \<open>Properties that span the components\<close>

text \<open>
  C1: end to end, from the datagrams to a new subscriber: after any run of reads whose
  events were all written, the snapshot in the stream shows a tag inactive when its location
  is lost or the watchdog has flagged it, not inactive when it is online with a fix, and in
  exactly the zones of its last accepted datagram with a fix, in none otherwise.
\<close>

theorem pipeline_current:
  assumes "reliable N log kv A" and "starts_empty log kv r" and "events_ok A (fst (feed decoder reads))"
    and "list_all (read_ok decoder) reads" and "snd (feed decoder reads) a = Some st"
    and "last_msg decoder a reads = Some m"
  shows "(if \<not> online st \<or> \<not> time_is_zero (locationLostAt st)
      then map_option ev_presence (snapshot (presenceSubject a) (stream_after N log decoder r reads)) = Some PresenceTypeInactive
      else isLocationType (lastLocationType st) \<longrightarrow>
        map_option ev_presence (snapshot (presenceSubject a) (stream_after N log decoder r reads)) \<noteq> Some PresenceTypeInactive)
    \<and> (case snapshot (zoneSubject a) (stream_after N log decoder r reads) of None \<Rightarrow> {} | Some q \<Rightarrow> set (ev_zones q))
      = (if LocationType m = ''position'' then set (normaliseZones (LocationZoneIds m)) else {})"
  using feed_agrees [OF assms(4), of a] assms(5,6)
  unfolding snapshot_presence_shown [OF assms(1-3)] snapshot_zones_shown [OF assms(1-4)]
  by (auto simp: tag_agrees_def tag_inv_def isLocationType_def)

lemma lost_run_reads: "list_all (read_ok sim_unmarshal) lost_run"
  by (simp add: lost_run_def lost_steps_def normaliseZones_def)

lemma lost_run_msg:
  "last_msg sim_unmarshal ''tag'' lost_run = Some (received (positionPkt ''tag'' [''pool''] 3000 3000))"
  by (simp add: lost_run_def lost_steps_def last_msg_def)

theorem pipeline_current_witness:
  "(case snapshot (zoneSubject ''tag'') (stream_after mem_nats fst sim_unmarshal fresh lost_run) of
      None \<Rightarrow> {} | Some q \<Rightarrow> set (ev_zones q)) = {''pool''}"
proof -
  obtain st where "snd (feed sim_unmarshal lost_run) ''tag'' = Some st"
    using feed_agrees [OF lost_run_reads, of "''tag''"] lost_run_msg
    by (auto simp: tag_agrees_def split: option.splits)
  from pipeline_current [OF mem_nats_reliable starts_empty_fresh lost_run_ok lost_run_reads this lost_run_msg]
  show ?thesis by (simp add: normaliseZones_def)
qed

text \<open>
  C13: the simulator's \<open>lost\<close> scenario passes its own validation: for any tag and zone, and any
  clock readings the wire can carry, the change messages that its three datagrams leave in
  the stream, sent to the subscriber in the order of the stream, satisfy its four checks.
\<close>

theorem lost_scenario_passes:
  assumes "reliable N log kv {tid}" and "starts_empty log kv r"
    and "tid \<noteq> ''''" and "ascii tid" and "ascii z"
    and "list_all (\<lambda>c. 0 < sint (fst c) \<and> sint (fst c) < 253402300800000) [c1, c2, c3]"
  shows "fst (runChecks (lost_checks tid z)
      (map (\<lambda>m. case unmarshal (snd m) of Inr e \<Rightarrow> Ev (domainEventToPb new_ts e) | Inl _ \<Rightarrow> StreamClosed)
        (filter (\<lambda>m. fst m \<noteq> rawSubject tid)
          (stream_after N log sim_unmarshal r (map (\<lambda>d. ReadPacket d clk) (lost_steps tid z c1 c2 c3))))))
    = Some True"
proof -
  let ?reads = "map (\<lambda>d. ReadPacket d clk) (lost_steps tid z c1 c2 c3)"
  let ?m1 = "received (positionPkt tid [z] (fst c1) (snd c1))"
  let ?m2 = "received (noLocationPkt tid (fst c2) (snd c2))"
  let ?m3 = "received (positionPkt tid [z] (fst c3) (snd c3))"
  let ?t = "\<lambda>c :: int64 \<times> int64. time_UnixMilli (fst c)"
  let ?e1 = "zoneEvent ?m1 (?t c1) [z] 0" and ?e2 = "zoneEvent ?m2 (?t c2) [] 0"
    and ?e3 = "presenceEvent ?m2 (?t c2) [z] PresenceTypeInactive 1"
    and ?e4 = "presenceEvent ?m3 (?t c3) [z] PresenceTypeActive 0" and ?e5 = "zoneEvent ?m3 (?t c3) [z] 1"
  have evs: "fst (feed sim_unmarshal ?reads) = [?e1, ?e2, ?e3, ?e4, ?e5]"
    by (rule lost_events [OF assms(3) _ _ _ refl refl refl]) (use assms(6) in simp_all)
  have t: "time_json_ok (?t c)" if "c \<in> {c1, c2, c3}" for c
    using that assms(6) by (auto simp: time_json_ok_UnixMilli)
  have ok [simp]: "event_wire_ok ?e1" "event_wire_ok ?e2" "event_wire_ok ?e3" "event_wire_ok ?e4" "event_wire_ok ?e5"
    using assms(4,5) by (auto intro!: sim_event_ok [where tid = tid and z = z] simp: t)
  then have "events_ok {tid} (fst (feed sim_unmarshal ?reads))"
    unfolding evs by (simp add: events_ok_def)
  from stream_after_empty [OF assms(1,2) this] have
    "filter (\<lambda>m. fst m \<noteq> rawSubject tid) (stream_after N log sim_unmarshal r ?reads) =
      messages [(zoneSubject tid, ?e1), (zoneSubject tid, ?e2), (presenceSubject tid, ?e3),
        (presenceSubject tid, ?e4), (zoneSubject tid, ?e5)]"
    unfolding evs
    by (simp add: case_prod_beta changes_def change_subject_def same_zone_def same_presence_def
        repo_zonesEqual_iff)
  then show ?thesis by (simp add: lost_checks_def messages_def)
qed

theorem lost_scenario_passes_witness:
  "fst (runChecks (lost_checks ''tag'' ''pool'')
      (map (\<lambda>m. case unmarshal (snd m) of Inr e \<Rightarrow> Ev (domainEventToPb unix_ns e) | Inl _ \<Rightarrow> StreamClosed)
        (filter (\<lambda>m. fst m \<noteq> rawSubject ''tag'') (stream_after mem_nats fst sim_unmarshal fresh lost_run))))
    = Some True"
  unfolding lost_run_def
  by (rule lost_scenario_passes [OF mem_nats_reliable starts_empty_fresh]) simp_all

end
